theory Spec2Isabelle
  imports Complex_Main
begin

unbundle bit_operations_syntax

section \<open>The command line driver \<^verbatim>\<open>hhts_cli/main.cpp\<close>\<close>

text \<open>
  The repository's only source file is the driver \<^verbatim>\<open>main\<close>. Everything it calls lives in
  headers that are not part of the sources (\<^verbatim>\<open>hhts.h\<close>, \<^verbatim>\<open>io_util.h\<close>,
  \<^verbatim>\<open>superpixel_tools.h\<close>, \<^verbatim>\<open>visualization.h\<close>) or in OpenCV and Boost. The driver is
  embedded as a function from the parsed options and an environment holding these
  collaborators to an outcome and the ordered list of external calls it makes.
\<close>

subsection \<open>Values\<close>

type_synonym path = string

text \<open>A \<^verbatim>\<open>cv::Mat\<close> as a row-major grid; the empty matrix is \<open>[]\<close>, which is what
  \<^verbatim>\<open>cv::imread\<close> returns for a file it cannot decode.\<close>

type_synonym mat = "int list list"

text \<open>The result of a \<^verbatim>\<open>double\<close> division, with the IEEE special values written out.
  Rounding is not modelled: a finite result carries the exact quotient.\<close>

datatype dbl = Finite real | PosInf | NegInf | NaN

text \<open>\<^verbatim>\<open>total / count\<close> with \<^verbatim>\<open>double total\<close> and \<^verbatim>\<open>int count\<close>: the count is promoted to
  \<^verbatim>\<open>double\<close>, and a zero divisor gives a NaN or an infinity, not an exception.\<close>

definition ddiv :: "real \<Rightarrow> int \<Rightarrow> dbl" where
  "ddiv t c =
     (if c \<noteq> 0 then Finite (t / of_int c)
      else if t = 0 then NaN
      else if 0 < t then PosInf
      else NegInf)"

text \<open>How \<^verbatim>\<open>main\<close> ends: a \<^verbatim>\<open>return\<close>, an exception nobody catches (\<^verbatim>\<open>main\<close> has no
  \<^verbatim>\<open>try\<close>), or the unchecked read \<^verbatim>\<open>superpixels[i]\<close> past the end of the vector.\<close>

datatype outcome = Exit int | Uncaught string | Undefined

text \<open>The external calls \<^verbatim>\<open>main\<close> makes, as far as their effect or their result matters
  below, in the order in which it makes them. \<open>Hhts\<close> records the arguments of the call of
  line 190 that vary: the image, the target counts, \<^verbatim>\<open>splitThreshold\<close>, \<^verbatim>\<open>bins\<close>,
  \<^verbatim>\<open>minSegmentSize\<close>, \<^verbatim>\<open>colorChannels\<close> and \<^verbatim>\<open>applyBlur\<close> (the output vector and \<^verbatim>\<open>noArray()\<close> are
  left out). \<open>Imwrite\<close> records the file and the image \<^verbatim>\<open>drawContours\<close> has drawn.\<close>

datatype event =
    PrintHelp
  | PrintNotFound
  | PrintAverage dbl dbl
  | CreateDirectories path
  | ReadDirectory path
  | Imread string
  | Hhts mat "int list" real int int int bool
  | Relabel mat
  | WriteMatCSV path mat
  | Imwrite path mat
  | AppendRuntime path dbl dbl

subsection \<open>Options\<close>

text \<open>The options declared at lines 49-63: long name, short name, and whether the option
  takes a value (a \<^verbatim>\<open>boost::program_options::value\<close>) or is a switch.\<close>

definition desc :: "(string \<times> string \<times> bool) list" where
  "desc =
     [(''help'', ''h'', False), (''input'', ''i'', True), (''superpixels'', ''s'', True),
      (''splitThreshold'', ''t'', True), (''nrgb'', [], False), (''nhsv'', [], False),
      (''nlab'', [], False), (''blur'', [], False), (''bins'', ''b'', True),
      (''minSize'', ''m'', True), (''csv'', ''o'', True), (''vis'', ''v'', True),
      (''prefix'', ''x'', True), (''wordy'', ''w'', False)]"

text \<open>The parser accepts a long option only if it is declared; any other name makes
  \<^verbatim>\<open>command_line_parser::run\<close> throw \<^verbatim>\<open>unknown_option\<close>.\<close>

definition declared :: "string \<Rightarrow> bool" where
  "declared name = (name \<in> set (map fst desc))"

definition switches :: "string list" where
  "switches = map fst (filter (\<lambda>(name, short, takes_value). \<not> takes_value) desc)"

text \<open>
  The \<^verbatim>\<open>variables_map\<close> after \<^verbatim>\<open>store\<close> and \<^verbatim>\<open>notify\<close>, one field per declared option. A
  switch is \<open>True\<close> when it occurs on the command line. An option declared with a
  \<^verbatim>\<open>default_value\<close> (\<^verbatim>\<open>splitThreshold\<close> 0.0, \<^verbatim>\<open>bins\<close> 32, \<^verbatim>\<open>minSize\<close> 64, \<^verbatim>\<open>csv\<close>, \<^verbatim>\<open>vis\<close> and
  \<^verbatim>\<open>prefix\<close> empty) is always present, so the \<^verbatim>\<open>find\<close> tests on it at lines 125, 148 and
  153 always succeed and the field is the value \<^verbatim>\<open>main\<close> uses. \<^verbatim>\<open>input\<close> and
  \<^verbatim>\<open>superpixels\<close> have no default and may be absent.
\<close>

record parameters =
  "help" :: bool
  input :: "string option"
  superpixels :: "int list option"
  splitThreshold :: real
  nrgb :: bool
  nhsv :: bool
  nlab :: bool
  blur :: bool
  bins :: int
  minSize :: int
  csv :: string
  vis :: string
  prefix :: string
  wordy :: bool

subsection \<open>Collaborators\<close>

text \<open>
  What \<^verbatim>\<open>main\<close> calls but does not define is taken as a parameter:
  \<^item> \<open>directories\<close>: the directories that exist when the program starts;
  \<^item> \<open>readDirectory\<close>: the entries \<^verbatim>\<open>IOUtil::readDirectory\<close> puts into the multimap, in
    iteration (key) order;
  \<^item> \<open>stem\<close>: \<^verbatim>\<open>boost::filesystem::path::stem\<close>;
  \<^item> \<open>imread\<close>: \<^verbatim>\<open>cv::imread\<close>;
  \<^item> \<open>hhts\<close>: \<^verbatim>\<open>HHTS::hhts\<close>, which fills \<^verbatim>\<open>labels\<close> and returns \<^verbatim>\<open>labelCounts\<close>, or throws;
  \<^item> \<open>relabelConnectedSuperpixels\<close>: the relabelled matrix (the C++ function changes its
    argument in place) and the returned count;
  \<^item> \<open>drawContours\<close>: the contour image \<^verbatim>\<open>Visualization::drawContours\<close> produces;
  \<^item> \<open>timer\<close>: for the n-th timed call (from 0), the CPU time (user + system) and the
    wall time in seconds;
  \<^item> \<open>RGB\<close>, \<open>HSV\<close>, \<open>LAB\<close>: the enumerators of \<^verbatim>\<open>HHTS::ColorChannel\<close>.
  Of the collaborators only \<open>hhts\<close> is given a throwing branch; the file system calls,
  \<open>imread\<close> and the writers are taken to return.
\<close>

text \<open>Modelled from the spec: \<^verbatim>\<open>HHTS::hhts\<close> and \<^verbatim>\<open>SuperpixelTools::relabelConnectedSuperpixels\<close>
  are missing from the sources. The spec says that segmentation is deterministic, so
  the fields \<open>hhts\<close> and \<open>relabelConnectedSuperpixels\<close> are functions of their arguments;
  the label matrices \<^verbatim>\<open>hhts\<close> returns are taken not to share storage.\<close>

record env =
  directories :: "path set"
  readDirectory :: "path \<Rightarrow> (string \<times> path) list"
  stem :: "path \<Rightarrow> string"
  imread :: "string \<Rightarrow> mat"
  hhts :: "mat \<Rightarrow> int list \<Rightarrow> real \<Rightarrow> int \<Rightarrow> int \<Rightarrow> int \<Rightarrow> bool
             \<Rightarrow> string + (mat list \<times> int list)"
  relabelConnectedSuperpixels :: "mat \<Rightarrow> mat \<times> int"
  drawContours :: "mat \<Rightarrow> mat \<Rightarrow> mat"
  timer :: "nat \<Rightarrow> real \<times> real"
  RGB :: int
  HSV :: int
  LAB :: int

subsection \<open>Paths and directories\<close>

text \<open>\<^verbatim>\<open>std::to_string(int)\<close>.\<close>

definition digit :: "nat \<Rightarrow> char" where
  "digit d = ''0123456789'' ! d"

fun to_string_nat :: "nat \<Rightarrow> string" where
  "to_string_nat n =
     (if n < 10 then [digit n] else to_string_nat (n div 10) @ [digit (n mod 10)])"

declare to_string_nat.simps [simp del]

definition to_string :: "int \<Rightarrow> string" where
  "to_string i =
     (if i < 0 then CHR ''-'' # to_string_nat (nat (- i)) else to_string_nat (nat i))"

text \<open>\<^verbatim>\<open>operator/\<close> of \<^verbatim>\<open>boost::filesystem::path\<close> (version 3, POSIX): a separator is put
  between the operands unless the left one is empty or ends with one, or the right one
  is empty or starts with one.\<close>

definition path_append :: "path \<Rightarrow> path \<Rightarrow> path" where
  "path_append a b =
     (if b = [] then a
      else if a = [] \<or> last a = CHR ''/'' \<or> hd b = CHR ''/'' then a @ b
      else a @ ''/'' @ b)"

text \<open>Directories are told apart by their path as written (no normalisation, no links).
  \<^verbatim>\<open>create_directories\<close> creates the path and every missing parent; the parents of a path
  are its non-empty prefixes that end before a separator.\<close>

definition is_directory :: "path set \<Rightarrow> path \<Rightarrow> bool" where
  "is_directory ds p = (p \<in> ds)"

fun parents_from :: "path \<Rightarrow> path \<Rightarrow> path list" where
  "parents_from done [] = []"
| "parents_from done (c # cs) =
     (if c = CHR ''/'' \<and> done \<noteq> [] then [done] else []) @ parents_from (done @ [c]) cs"

definition parents :: "path \<Rightarrow> path list" where
  "parents p = parents_from [] p"

definition create_directories :: "path set \<Rightarrow> path \<Rightarrow> path set" where
  "create_directories ds p = insert p (set (parents p) \<union> ds)"

text \<open>The idiom of lines 81-84, 90-93 and 118-121.\<close>

definition ensure_directory :: "path set \<Rightarrow> path \<Rightarrow> path set \<times> event list" where
  "ensure_directory ds p =
     (if \<not> is_directory ds p then (create_directories ds p, [CreateDirectories p])
      else (ds, []))"

text \<open>Lines 115-122.\<close>

fun superpixel_dirs :: "path \<Rightarrow> path set \<Rightarrow> int list \<Rightarrow> path set \<times> event list" where
  "superpixel_dirs output_dir ds [] = (ds, [])"
| "superpixel_dirs output_dir ds (sp # sps) =
     (let (ds1, ev1) = ensure_directory ds (path_append output_dir (to_string sp));
          (ds2, ev2) = superpixel_dirs output_dir ds1 sps
      in (ds2, ev1 @ ev2))"

subsection \<open>One image\<close>

text \<open>Lines 175-187.\<close>

definition colorChannels :: "env \<Rightarrow> parameters \<Rightarrow> int" where
  "colorChannels e p =
     (let c0 = 0;
          c1 = (if \<not> nrgb p then c0 OR RGB e else c0);
          c2 = (if \<not> nhsv p then c1 OR HSV e else c1);
          c3 = (if \<not> nlab p then c2 OR LAB e else c2)
      in c3)"

text \<open>Lines 215-230, from index \<open>i\<close> on, over the label matrices not yet written. The
  flag is \<open>False\<close> when \<^verbatim>\<open>superpixels[i]\<close> is read past the end; the read is only made
  when one of the two output options is set.\<close>

fun write_outputs ::
  "env \<Rightarrow> parameters \<Rightarrow> int list \<Rightarrow> mat \<Rightarrow> string \<Rightarrow> nat \<Rightarrow> mat list \<Rightarrow> event list \<times> bool"
where
  "write_outputs e p sps img name i [] = ([], True)"
| "write_outputs e p sps img name i (l # ls) =
     (if csv p = [] \<and> vis p = [] then write_outputs e p sps img name (Suc i) ls
      else if length sps \<le> i then ([], False)
      else
        let ev_csv =
              (if csv p \<noteq> []
               then [WriteMatCSV
                       (path_append (path_append (csv p) (to_string (sps ! i)))
                          (name @ ''.csv'')) l]
               else []);
            ev_vis =
              (if vis p \<noteq> []
               then [Imwrite
                       (path_append (path_append (vis p) (to_string (sps ! i)))
                          (name @ ''.png'')) (drawContours e img l)]
               else []);
            (rest, ok) = write_outputs e p sps img name (Suc i) ls
        in (ev_csv @ ev_vis @ rest, ok))"

text \<open>The body of the loop over the images, lines 168-231. The accumulator is
  \<^verbatim>\<open>(totalWall, total, count)\<close>; \<^verbatim>\<open>total\<close> is written \<open>totalCpu\<close>.\<close>

definition process_image ::
  "env \<Rightarrow> parameters \<Rightarrow> int list \<Rightarrow> real \<times> real \<times> int \<Rightarrow> string \<times> path
     \<Rightarrow> event list \<times> (outcome + real \<times> real \<times> int)"
where
  "process_image e p sps acc it =
     (case acc of (totalWall, totalCpu, count) \<Rightarrow>
        (let img = imread e (fst it);
             call = Hhts img sps (splitThreshold p) (bins p) (minSize p)
                      (colorChannels e p) (blur p)
         in (case hhts e img sps (splitThreshold p) (bins p) (minSize p)
                    (colorChannels e p) (blur p) of
               Inl msg \<Rightarrow> ([Imread (fst it), call], Inl (Uncaught msg))
             | Inr (labels, labelCounts) \<Rightarrow>
                 (let (elapsed, elapsedWall) = timer e (nat count);
                      acc' = (totalWall + elapsedWall, totalCpu + elapsed, count + 1);
                      labels' = map (\<lambda>l. fst (relabelConnectedSuperpixels e l)) labels;
                      (outs, ok) =
                        write_outputs e p sps img (prefix p @ stem e (snd it)) 0 labels'
                  in ([Imread (fst it), call] @ map Relabel labels @ outs,
                      (if ok then Inr acc' else Inl Undefined))))))"

subsection \<open>The batch and the program\<close>

text \<open>Lines 166-231.\<close>

fun batch ::
  "env \<Rightarrow> parameters \<Rightarrow> int list \<Rightarrow> real \<times> real \<times> int \<Rightarrow> (string \<times> path) list
     \<Rightarrow> event list \<times> (outcome + real \<times> real \<times> int)"
where
  "batch e p sps acc [] = ([], Inr acc)"
| "batch e p sps acc (it # its) =
     (case process_image e p sps acc it of
        (evs, Inl out) \<Rightarrow> (evs, Inl out)
      | (evs, Inr acc') \<Rightarrow>
          (let (evs', r) = batch e p sps acc' its in (evs @ evs', r)))"

text \<open>Lines 72-123: what happens before the directory is listed. \<open>Inl\<close> is an early end
  of the program, \<open>Inr\<close> carries the input directory and the target counts.\<close>

definition startup ::
  "env \<Rightarrow> parameters \<Rightarrow> event list \<times> (outcome + path \<times> int list)"
where
  "startup e p =
     (if help p then ([PrintHelp], Inl (Exit 1))
      else
        let output_dir = csv p;
            (ds1, ev1) =
              (if output_dir \<noteq> [] then ensure_directory (directories e) output_dir
               else (directories e, []));
            vis_dir = vis p;
            (ds2, ev2) =
              (if vis_dir \<noteq> [] then ensure_directory ds1 vis_dir else (ds1, []))
        in case input p of
             None \<Rightarrow> (ev1 @ ev2, Inl (Uncaught ''boost::bad_any_cast''))
           | Some input_dir \<Rightarrow>
               if \<not> is_directory ds2 input_dir
               then (ev1 @ ev2 @ [PrintNotFound], Inl (Exit 1))
               else
                 let sps = (case superpixels p of None \<Rightarrow> [] | Some v \<Rightarrow> v);
                     (ds3, ev3) = superpixel_dirs output_dir ds2 sps
                 in (ev1 @ ev2 @ ev3, Inr (input_dir, sps)))"

text \<open>Lines 233-247: what happens after the loop.\<close>

definition finish :: "parameters \<Rightarrow> real \<times> real \<times> int \<Rightarrow> event list" where
  "finish p acc =
     (case acc of (totalWall, totalCpu, count) \<Rightarrow>
        (if wordy p then [PrintAverage (ddiv totalCpu count) (ddiv totalWall count)] else []) @
        (if csv p \<noteq> []
         then [AppendRuntime (csv p @ ''/'' @ prefix p @ ''runtime.txt'')
                 (ddiv totalCpu count) (ddiv totalWall count)]
         else []))"

definition main :: "env \<Rightarrow> parameters \<Rightarrow> outcome \<times> event list" where
  "main e p =
     (case startup e p of
        (ev0, Inl out) \<Rightarrow> (out, ev0)
      | (ev0, Inr (input_dir, sps)) \<Rightarrow>
          (case batch e p sps (0, 0, 0) (readDirectory e input_dir) of
             (ev1, Inl out) \<Rightarrow> (out, ev0 @ [ReadDirectory input_dir] @ ev1)
           | (ev1, Inr acc) \<Rightarrow>
               (Exit 0, ev0 @ [ReadDirectory input_dir] @ ev1 @ finish p acc)))"

subsection \<open>Reading the trace\<close>

text \<open>What a list of calls does to the directories and to the content of one file.
  \<^verbatim>\<open>writeMatCSV\<close> and \<^verbatim>\<open>cv::imwrite\<close> replace a file; the runtime log is opened with
  \<^verbatim>\<open>std::ofstream::out | std::ofstream::app\<close>, so a line is put after what is there.

  No call creates the directory of its file, and \<^verbatim>\<open>main\<close> tests the result of none of
  them: lines 240-244 write to the stream and close it without asking \<^verbatim>\<open>is_open\<close>. A
  file whose directory does not exist when the call is made is therefore not written,
  and the run goes on. The directory of a file is what stands before the last separator
  of its name; a name without separator lies in the working directory. Directories are
  told apart by their spelling, as in \<^term>\<open>is_directory\<close>.\<close>

fun dir_event :: "path set \<Rightarrow> event \<Rightarrow> path set" where
  "dir_event ds (CreateDirectories p) = create_directories ds p"
| "dir_event ds ev = ds"

definition dirs_after :: "path set \<Rightarrow> event list \<Rightarrow> path set" where
  "dirs_after ds evs = foldl dir_event ds evs"

definition parent_dir :: "path \<Rightarrow> path" where
  "parent_dir f =
     (if CHR ''/'' \<in> set f then rev (tl (dropWhile (\<lambda>c. c \<noteq> CHR ''/'') (rev f))) else [])"

definition can_open :: "path set \<Rightarrow> path \<Rightarrow> bool" where
  "can_open ds f = (parent_dir f = [] \<or> parent_dir f \<in> ds)"

datatype content = CsvData mat | PngData mat | RuntimeLine dbl dbl

fun write_event :: "path set \<Rightarrow> path \<Rightarrow> content list \<Rightarrow> event \<Rightarrow> content list" where
  "write_event ds f c (WriteMatCSV g m) = (if g = f \<and> can_open ds g then [CsvData m] else c)"
| "write_event ds f c (Imwrite g m) = (if g = f \<and> can_open ds g then [PngData m] else c)"
| "write_event ds f c (AppendRuntime g a b) =
     (if g = f \<and> can_open ds g then c @ [RuntimeLine a b] else c)"
| "write_event ds f c ev = c"

text \<open>The content of the file \<open>f\<close> after the calls \<open>evs\<close>, made one after the other from
  the directories \<open>ds\<close> and the content \<open>c\<close>.\<close>

fun file_after :: "path set \<Rightarrow> path \<Rightarrow> content list \<Rightarrow> event list \<Rightarrow> content list" where
  "file_after ds f c [] = c"
| "file_after ds f c (ev # evs) = file_after (dir_event ds ev) f (write_event ds f c ev) evs"

fun is_output :: "event \<Rightarrow> bool" where
  "is_output (WriteMatCSV f m) = True"
| "is_output (Imwrite f m) = True"
| "is_output ev = False"

fun is_hhts :: "event \<Rightarrow> bool" where
  "is_hhts (Hhts img sps t b m c bl) = True"
| "is_hhts ev = False"


fun is_create :: "event \<Rightarrow> bool" where
  "is_create (CreateDirectories d) = True"
| "is_create ev = False"

text \<open>The call of line 190 for one entry of the listing: its result, and the call as it
  stands in the trace.\<close>

definition segment ::
  "env \<Rightarrow> parameters \<Rightarrow> int list \<Rightarrow> string \<times> path \<Rightarrow> string + (mat list \<times> int list)"
where
  "segment e p sps it =
     hhts e (imread e (fst it)) sps (splitThreshold p) (bins p) (minSize p)
       (colorChannels e p) (blur p)"

definition segment_call :: "env \<Rightarrow> parameters \<Rightarrow> int list \<Rightarrow> string \<times> path \<Rightarrow> event" where
  "segment_call e p sps it =
     Hhts (imread e (fst it)) sps (splitThreshold p) (bins p) (minSize p)
       (colorChannels e p) (blur p)"

text \<open>The loop body returns to the loop for this image: \<^verbatim>\<open>hhts\<close> does not throw, and
  \<^verbatim>\<open>superpixels[i]\<close> is not read past the end.\<close>

definition completes :: "env \<Rightarrow> parameters \<Rightarrow> int list \<Rightarrow> string \<times> path \<Rightarrow> bool" where
  "completes e p sps it =
     (case segment e p sps it of
        Inl msg \<Rightarrow> False
      | Inr (labels, labelCounts) \<Rightarrow>
          (csv p = [] \<and> vis p = []) \<or> length labels \<le> length sps)"

text \<open>The calls of one pass through the loop body; they do not depend on the
  accumulated times.\<close>

definition image_events :: "env \<Rightarrow> parameters \<Rightarrow> int list \<Rightarrow> string \<times> path \<Rightarrow> event list" where
  "image_events e p sps it = fst (process_image e p sps (0, 0, 0) it)"

text \<open>Every matrix handed to \<^verbatim>\<open>writeMatCSV\<close>, and every matrix \<^verbatim>\<open>drawContours\<close> draws for
  \<^verbatim>\<open>imwrite\<close>, is the result of a \<^verbatim>\<open>relabelConnectedSuperpixels\<close> call made earlier in the
  same pass through the loop body. \<open>k\<close> is the key of the image last read, \<open>seen\<close> the
  matrices relabelled since.\<close>

fun relabelled_first :: "env \<Rightarrow> string \<Rightarrow> mat list \<Rightarrow> event list \<Rightarrow> bool" where
  "relabelled_first e k seen [] = True"
| "relabelled_first e k seen (Imread k' # evs) = relabelled_first e k' [] evs"
| "relabelled_first e k seen (Relabel l # evs) = relabelled_first e k (l # seen) evs"
| "relabelled_first e k seen (WriteMatCSV f m # evs) =
     (m \<in> set (map (\<lambda>l. fst (relabelConnectedSuperpixels e l)) seen) \<and>
      relabelled_first e k seen evs)"
| "relabelled_first e k seen (Imwrite f m # evs) =
     (m \<in> set (map (\<lambda>l. drawContours e (imread e k) (fst (relabelConnectedSuperpixels e l)))
                 seen) \<and>
      relabelled_first e k seen evs)"
| "relabelled_first e k seen (ev # evs) = relabelled_first e k seen evs"

text \<open>The outputs lines 215-230 make for the label matrix \<open>l\<close> at index \<open>i\<close>.\<close>

definition outputs_at ::
  "env \<Rightarrow> parameters \<Rightarrow> int list \<Rightarrow> string \<times> path \<Rightarrow> nat \<Rightarrow> mat \<Rightarrow> event list"
where
  "outputs_at e p sps it i l =
     (if csv p \<noteq> []
      then [WriteMatCSV
              (path_append (path_append (csv p) (to_string (sps ! i)))
                 (prefix p @ stem e (snd it) @ ''.csv'')) l]
      else []) @
     (if vis p \<noteq> []
      then [Imwrite
              (path_append (path_append (vis p) (to_string (sps ! i)))
                 (prefix p @ stem e (snd it) @ ''.png''))
              (drawContours e (imread e (fst it)) l)]
      else [])"

subsection \<open>A small run\<close>

text \<open>Two files in \<^verbatim>\<open>imgs\<close>: \<^verbatim>\<open>a.png\<close> cannot be decoded, \<^verbatim>\<open>b.png\<close> is a 2 x 2 image. The
  stand-in for \<^verbatim>\<open>hhts\<close> accepts every image and every configuration and returns one
  all-zero label matrix of the image's shape per target count.\<close>

definition example_env :: env where
  "example_env =
     \<lparr> directories = {''imgs''},
       readDirectory =
         (\<lambda>d. if d = ''imgs''
               then [(''imgs/a.png'', ''imgs/a.png''), (''imgs/b.png'', ''imgs/b.png'')]
               else []),
       stem = (\<lambda>f. if f = ''imgs/a.png'' then ''a'' else if f = ''imgs/b.png'' then ''b'' else f),
       imread = (\<lambda>k. if k = ''imgs/b.png'' then [[10, 20], [30, 40]] else []),
       hhts = (\<lambda>img sps t b m c bl. Inr (map (\<lambda>sp. map (map (\<lambda>v. 0)) img) sps, map (\<lambda>sp. 1) sps)),
       relabelConnectedSuperpixels = (\<lambda>l. (l, 0)),
       drawContours = (\<lambda>img l. img),
       timer = (\<lambda>n. (1, 3)),
       RGB = 1, HSV = 2, LAB = 4 \<rparr>"

text \<open>The same, with a stand-in for \<^verbatim>\<open>hhts\<close> that throws on an empty image.\<close>

definition strict_env :: env where
  "strict_env =
     example_env
       \<lparr> hhts :=
           (\<lambda>img sps t b m c bl.
              if img = [] then Inl ''empty image'' else hhts example_env img sps t b m c bl) \<rparr>"

text \<open>\<^verbatim>\<open>hhts_cli imgs -s 2 5 -o out\<close>.\<close>

definition example_parameters :: parameters where
  "example_parameters =
     \<lparr> help = False, input = Some ''imgs'', superpixels = Some [2, 5],
       splitThreshold = 0, nrgb = False, nhsv = False, nlab = False, blur = False,
       bins = 32, minSize = 64, csv = ''out'', vis = [], prefix = [], wordy = False \<rparr>"

section \<open>Auxiliary facts\<close>

subsection \<open>The loop body and the loop\<close>

lemma write_outputs_ok:
  "snd (write_outputs e p sps img name i ls) =
     (ls = [] \<or> (csv p = [] \<and> vis p = []) \<or> i + length ls \<le> length sps)"
proof (induction ls arbitrary: i)
  case Nil
  then show ?case by simp
next
  case (Cons l ls)
  from Cons [of "Suc i"] show ?case
    by (cases "write_outputs e p sps img name (Suc i) ls") (auto simp: Let_def)
qed

lemma concat_map_Nil: "concat (map (\<lambda>x. []) xs) = []"
  by (induction xs) auto

lemma write_outputs_events:
  "fst (write_outputs e p sps (imread e (fst it)) (prefix p @ stem e (snd it)) i ls) =
     concat (map (\<lambda>(j, l). outputs_at e p sps it j l) (zip [i..<length sps] ls))"
proof (induction ls arbitrary: i)
  case Nil
  then show ?case by simp
next
  case (Cons l ls)
  show ?case
  proof (cases "csv p = [] \<and> vis p = []")
    case True
    then have "\<And>j m. outputs_at e p sps it j m = []"
      by (simp add: outputs_at_def)
    with True Cons [of "Suc i"] show ?thesis
      by (simp add: case_prod_beta concat_map_Nil)
  next
    case False
    show ?thesis
    proof (cases "length sps \<le> i")
      case True
      with False show ?thesis by auto
    next
      case False2: False
      then have "[i..<length sps] = i # [Suc i..<length sps]"
        by (simp add: upt_conv_Cons)
      with False False2 Cons [of "Suc i"] show ?thesis
        by (auto simp: Let_def outputs_at_def split: prod.splits)
    qed
  qed
qed

lemma process_image_throw:
  "segment e p sps it = Inl msg \<Longrightarrow>
     process_image e p sps acc it = ([Imread (fst it), segment_call e p sps it], Inl (Uncaught msg))"
  by (cases acc) (simp add: process_image_def segment_def segment_call_def)

lemma process_image_return:
  assumes "segment e p sps it = Inr (ls, cs)"
  shows "process_image e p sps (tw, tc, c) it =
     ([Imread (fst it), segment_call e p sps it] @ map Relabel ls @
        concat (map (\<lambda>(j, l). outputs_at e p sps it j l)
                  (zip [0..<length sps] (map (\<lambda>l. fst (relabelConnectedSuperpixels e l)) ls))),
      if (csv p = [] \<and> vis p = []) \<or> length ls \<le> length sps
      then Inr (tw + snd (timer e (nat c)), tc + fst (timer e (nat c)), c + 1)
      else Inl Undefined)"
proof -
  let ?ls' = "map (\<lambda>l. fst (relabelConnectedSuperpixels e l)) ls"
  let ?w = "write_outputs e p sps (imread e (fst it)) (prefix p @ stem e (snd it)) 0 ?ls'"
  have w: "?w = (fst ?w, snd ?w)" by simp
  have ok: "snd ?w = ((csv p = [] \<and> vis p = []) \<or> length ls \<le> length sps)"
    by (auto simp: write_outputs_ok)
  have ev: "fst ?w = concat (map (\<lambda>(j, l). outputs_at e p sps it j l) (zip [0..<length sps] ?ls'))"
    by (rule write_outputs_events)
  from assms show ?thesis
    unfolding process_image_def segment_def segment_call_def
    apply (simp add: Let_def case_prod_beta)
    using ok ev by (simp add: case_prod_beta)
qed

lemma process_image_events: "fst (process_image e p sps acc it) = image_events e p sps it"
proof (cases "segment e p sps it")
  case (Inl msg)
  then show ?thesis
    by (simp add: image_events_def process_image_throw)
next
  case (Inr r)
  obtain tw tc c where acc: "acc = (tw, tc, c)" by (cases acc) auto
  obtain ls cs where r: "r = (ls, cs)" by (cases r) auto
  from Inr r acc show ?thesis
    by (simp add: image_events_def process_image_return)
qed

lemma image_events_throw:
  "segment e p sps it = Inl msg \<Longrightarrow>
     image_events e p sps it = [Imread (fst it), segment_call e p sps it]"
  by (simp add: image_events_def process_image_throw)

lemma image_events_return:
  "segment e p sps it = Inr (ls, cs) \<Longrightarrow>
     image_events e p sps it =
       [Imread (fst it), segment_call e p sps it] @ map Relabel ls @
       concat (map (\<lambda>(j, l). outputs_at e p sps it j l)
                 (zip [0..<length sps] (map (\<lambda>l. fst (relabelConnectedSuperpixels e l)) ls)))"
  by (simp add: image_events_def process_image_return)

lemma process_image_completes:
  "completes e p sps it \<Longrightarrow>
     process_image e p sps (tw, tc, c) it =
       (image_events e p sps it,
        Inr (tw + snd (timer e (nat c)), tc + fst (timer e (nat c)), c + 1))"
  by (cases "segment e p sps it")
     (auto simp: completes_def process_image_return image_events_return)

lemma process_image_stops:
  "\<not> completes e p sps it \<Longrightarrow>
     process_image e p sps acc it =
       (image_events e p sps it,
        Inl (case segment e p sps it of Inl msg \<Rightarrow> Uncaught msg | Inr r \<Rightarrow> Undefined))"
  by (cases "segment e p sps it"; cases acc)
     (auto simp: completes_def process_image_return process_image_throw
        image_events_return image_events_throw split: if_splits)

lemma batch_complete_prefix:
  assumes "\<forall>x\<in>set pre. completes e p sps x"
  shows "batch e p sps (tw, tc, int k) (pre @ rest) =
     (concat (map (image_events e p sps) pre) @
        fst (batch e p sps
               (tw + (\<Sum>i<length pre. snd (timer e (k + i))),
                tc + (\<Sum>i<length pre. fst (timer e (k + i))),
                int (k + length pre)) rest),
      snd (batch e p sps
             (tw + (\<Sum>i<length pre. snd (timer e (k + i))),
              tc + (\<Sum>i<length pre. fst (timer e (k + i))),
              int (k + length pre)) rest))"
  using assms
proof (induction pre arbitrary: tw tc k)
  case Nil
  then show ?case by simp
next
  case (Cons x pre)
  have step: "process_image e p sps (tw, tc, int k) x =
      (image_events e p sps x, Inr (tw + snd (timer e k), tc + fst (timer e k), int (Suc k)))"
    using Cons.prems by (simp add: process_image_completes)
  have ih: "batch e p sps (tw + snd (timer e k), tc + fst (timer e k), int (Suc k)) (pre @ rest) =
     (concat (map (image_events e p sps) pre) @
        fst (batch e p sps
               (tw + snd (timer e k) + (\<Sum>i<length pre. snd (timer e (Suc k + i))),
                tc + fst (timer e k) + (\<Sum>i<length pre. fst (timer e (Suc k + i))),
                int (Suc k + length pre)) rest),
      snd (batch e p sps
             (tw + snd (timer e k) + (\<Sum>i<length pre. snd (timer e (Suc k + i))),
              tc + fst (timer e k) + (\<Sum>i<length pre. fst (timer e (Suc k + i))),
              int (Suc k + length pre)) rest))"
    using Cons.prems by (intro Cons.IH) simp
  show ?case
    using step ih by (simp add: sum.lessThan_Suc_shift add.assoc del: sum.lessThan_Suc)
qed

subsection \<open>Directories and the start-up\<close>

lemma dirs_after_append: "dirs_after ds (xs @ ys) = dirs_after (dirs_after ds xs) ys"
  by (simp add: dirs_after_def)

lemma dirs_after_Nil: "dirs_after ds [] = ds"
  by (simp add: dirs_after_def)

lemma ensure_directory_props:
  assumes "ensure_directory ds q = (ds', evs)"
  shows "ds' = dirs_after ds evs" and "q \<in> ds'" and "ds \<subseteq> ds'"
    and "\<forall>ev\<in>set evs. is_create ev"
  using assms
  by (auto simp: ensure_directory_def is_directory_def create_directories_def dirs_after_def
      split: if_splits)

lemma superpixel_dirs_props:
  assumes "superpixel_dirs out ds sps = (ds', evs)"
  shows "ds' = dirs_after ds evs \<and> ds \<subseteq> ds' \<and>
     (\<forall>sp\<in>set sps. path_append out (to_string sp) \<in> ds') \<and> (\<forall>ev\<in>set evs. is_create ev)"
  using assms
proof (induction sps arbitrary: ds ds' evs)
  case Nil
  then show ?case by (simp add: dirs_after_Nil)
next
  case (Cons sp sps)
  obtain ds1 ev1 where e1: "ensure_directory ds (path_append out (to_string sp)) = (ds1, ev1)"
    by (cases "ensure_directory ds (path_append out (to_string sp))") auto
  obtain ds2 ev2 where e2: "superpixel_dirs out ds1 sps = (ds2, ev2)"
    by (cases "superpixel_dirs out ds1 sps") auto
  from Cons.prems e1 e2 have r: "ds' = ds2" "evs = ev1 @ ev2"
    by auto
  note a = ensure_directory_props [OF e1]
  note b = Cons.IH [OF e2]
  from a b r show ?case
    by (auto simp: dirs_after_append)
qed

lemma startup_reach:
  assumes "snd (startup e p) = Inr (d, sps)"
  shows "\<not> help p" and "input p = Some d"
    and "sps = (case superpixels p of None \<Rightarrow> [] | Some v \<Rightarrow> v)"
    and "\<forall>ev\<in>set (fst (startup e p)). is_create ev"
    and "\<forall>sp\<in>set sps. path_append (csv p) (to_string sp)
            \<in> dirs_after (directories e) (fst (startup e p))"
    and "d \<in> dirs_after (directories e) (fst (startup e p))"
    and "csv p \<noteq> [] \<Longrightarrow> csv p \<in> dirs_after (directories e) (fst (startup e p))"
proof -
  let ?sps = "case superpixels p of None \<Rightarrow> [] | Some v \<Rightarrow> v"
  obtain ds1 ev1 where e1:
    "(if csv p \<noteq> [] then ensure_directory (directories e) (csv p) else (directories e, []))
       = (ds1, ev1)"
    by (metis surj_pair)
  obtain ds2 ev2 where e2:
    "(if vis p \<noteq> [] then ensure_directory ds1 (vis p) else (ds1, [])) = (ds2, ev2)"
    by (metis surj_pair)
  obtain ds3 ev3 where e3: "superpixel_dirs (csv p) ds2 ?sps = (ds3, ev3)"
    by (metis surj_pair)
  from assms show nh: "\<not> help p"
    by (auto simp: startup_def)
  from assms nh e1 e2 show inp: "input p = Some d"
    by (auto simp: startup_def Let_def split: option.splits if_splits prod.splits)
  from assms nh e1 e2 inp have isd: "is_directory ds2 d"
    by (auto simp: startup_def Let_def split: option.splits if_splits prod.splits)
  from assms nh e1 e2 e3 inp isd show sps: "sps = ?sps"
    by (simp add: startup_def Let_def)
  from nh e1 e2 e3 inp isd have ev: "fst (startup e p) = ev1 @ ev2 @ ev3"
    by (simp add: startup_def Let_def)
  have p1: "ds1 = dirs_after (directories e) ev1" "\<forall>ev\<in>set ev1. is_create ev"
    using e1 ensure_directory_props [of "directories e" "csv p" ds1 ev1]
    by (auto simp: dirs_after_Nil split: if_splits)
  have p2: "ds2 = dirs_after ds1 ev2" "\<forall>ev\<in>set ev2. is_create ev"
    using e2 ensure_directory_props [of ds1 "vis p" ds2 ev2]
    by (auto simp: dirs_after_Nil split: if_splits)
  note p3 = superpixel_dirs_props [OF e3]
  from p1 p2 p3 ev show "\<forall>ev\<in>set (fst (startup e p)). is_create ev"
    by auto
  have ds3: "dirs_after (directories e) (fst (startup e p)) = ds3"
    using p1 p2 p3 ev by (simp add: dirs_after_append)
  from p3 have "\<forall>sp\<in>set ?sps. path_append (csv p) (to_string sp) \<in> ds3"
    by blast
  then show "\<forall>sp\<in>set sps. path_append (csv p) (to_string sp)
            \<in> dirs_after (directories e) (fst (startup e p))"
    unfolding sps ds3 .
  from isd p3 ds3 show "d \<in> dirs_after (directories e) (fst (startup e p))"
    by (auto simp: is_directory_def)
  show "csv p \<in> dirs_after (directories e) (fst (startup e p))" if ne: "csv p \<noteq> []"
  proof -
    from e1 ne have "csv p \<in> ds1"
      using ensure_directory_props(2) [of "directories e" "csv p" ds1 ev1] by simp
    moreover have "ds1 \<subseteq> ds2"
      using e2 ensure_directory_props(3) [of ds1 "vis p" ds2 ev2] by (auto split: if_splits)
    moreover from p3 p2(1) have "ds2 \<subseteq> ds3"
      by blast
    ultimately show ?thesis
      unfolding ds3 by blast
  qed
qed

lemma main_reach:
  assumes "snd (startup e p) = Inr (d, sps)"
  shows "main e p =
     (case batch e p sps (0, 0, 0) (readDirectory e d) of
        (ev1, Inl out) \<Rightarrow> (out, fst (startup e p) @ [ReadDirectory d] @ ev1)
      | (ev1, Inr acc) \<Rightarrow>
          (Exit 0, fst (startup e p) @ [ReadDirectory d] @ ev1 @ finish p acc))"
  using assms by (cases "startup e p") (simp add: main_def)

lemma main_early:
  assumes "snd (startup e p) = Inl out"
  shows "main e p = (out, fst (startup e p))"
  using assms by (cases "startup e p") (simp add: main_def)

lemma main_completes:
  assumes "snd (startup e p) = Inr (d, sps)"
    and "\<forall>it\<in>set (readDirectory e d). completes e p sps it"
  shows "main e p =
     (Exit 0,
      fst (startup e p) @ [ReadDirectory d] @
      concat (map (image_events e p sps) (readDirectory e d)) @
      finish p
        ((\<Sum>i<length (readDirectory e d). snd (timer e i)),
         (\<Sum>i<length (readDirectory e d). fst (timer e i)),
         int (length (readDirectory e d))))"
proof -
  have "batch e p sps (0, 0, int 0) (readDirectory e d @ []) =
     (concat (map (image_events e p sps) (readDirectory e d)),
      Inr ((\<Sum>i<length (readDirectory e d). snd (timer e i)),
         (\<Sum>i<length (readDirectory e d). fst (timer e i)),
         int (length (readDirectory e d))))"
    using assms(2) by (subst batch_complete_prefix) simp_all
  then show ?thesis
    by (simp add: main_reach [OF assms(1)])
qed

lemma main_stops:
  assumes "snd (startup e p) = Inr (d, sps)"
    and "readDirectory e d = pre @ it # post"
    and "\<forall>x\<in>set pre. completes e p sps x"
    and "\<not> completes e p sps it"
  shows "main e p =
     (case segment e p sps it of Inl msg \<Rightarrow> Uncaught msg | Inr r \<Rightarrow> Undefined,
      fst (startup e p) @ [ReadDirectory d] @
      concat (map (image_events e p sps) pre) @ image_events e p sps it)"
proof -
  have "batch e p sps (0, 0, int 0) (pre @ it # post) =
     (concat (map (image_events e p sps) pre) @ image_events e p sps it,
      Inl (case segment e p sps it of Inl msg \<Rightarrow> Uncaught msg | Inr r \<Rightarrow> Undefined))"
    using assms(3) by (subst batch_complete_prefix) (simp_all add: process_image_stops [OF assms(4)])
  then show ?thesis
    by (simp add: main_reach [OF assms(1)] assms(2))
qed

lemma startup_passes:
  assumes "\<not> help p" and "input p = Some d" and "d \<in> directories e"
  shows "snd (startup e p) = Inr (d, case superpixels p of None \<Rightarrow> [] | Some v \<Rightarrow> v)"
proof -
  obtain ds1 ev1 where e1:
    "(if csv p \<noteq> [] then ensure_directory (directories e) (csv p) else (directories e, []))
       = (ds1, ev1)"
    by (metis surj_pair)
  obtain ds2 ev2 where e2:
    "(if vis p \<noteq> [] then ensure_directory ds1 (vis p) else (ds1, [])) = (ds2, ev2)"
    by (metis surj_pair)
  have "directories e \<subseteq> ds1"
    using e1 ensure_directory_props(3) [of "directories e" "csv p" ds1 ev1]
    by (auto split: if_splits)
  moreover have "ds1 \<subseteq> ds2"
    using e2 ensure_directory_props(3) [of ds1 "vis p" ds2 ev2]
    by (auto split: if_splits)
  ultimately have "is_directory ds2 d"
    using assms(3) by (auto simp: is_directory_def)
  with assms(1,2) e1 e2 show ?thesis
    by (simp add: startup_def Let_def split: prod.splits)
qed

subsection \<open>Numbers as path names\<close>

lemma digit_not_sep: "n < 10 \<Longrightarrow> digit n \<noteq> CHR ''/''"
proof -
  assume "n < 10"
  then have "n \<in> {0, 1, 2, 3, 4, 5, 6, 7, 8, 9}"
    by auto
  then show ?thesis
    by (auto simp: digit_def)
qed

lemma to_string_nat_head: "to_string_nat n \<noteq> [] \<and> hd (to_string_nat n) \<noteq> CHR ''/''"
proof (induction n rule: to_string_nat.induct)
  case (1 n)
  show ?case
  proof (cases "n < 10")
    case True
    then show ?thesis
      by (subst (1 2) to_string_nat.simps) (simp add: digit_not_sep)
  next
    case False
    with 1 show ?thesis
      by (subst (1 2) to_string_nat.simps) simp
  qed
qed

lemma to_string_relative: "to_string i \<noteq> [] \<and> hd (to_string i) \<noteq> CHR ''/''"
  by (simp add: to_string_def to_string_nat_head)

lemma dirs_after_origin:
  "x \<in> dirs_after ds evs \<Longrightarrow>
     x \<in> ds \<or> (\<exists>q. CreateDirectories q \<in> set evs \<and> (x = q \<or> x \<in> set (parents q)))"
proof (induction evs arbitrary: ds)
  case Nil
  then show ?case by (simp add: dirs_after_def)
next
  case (Cons ev evs)
  from Cons.prems have "x \<in> dirs_after (dir_event ds ev) evs"
    by (simp add: dirs_after_def)
  from Cons.IH [OF this] show ?case
    by (cases ev) (auto simp: create_directories_def)
qed

subsection \<open>The calls of a run\<close>

lemma image_events_no_csv:
  "csv p = [] \<Longrightarrow> ev \<in> set (image_events e p sps it) \<Longrightarrow> ev \<noteq> WriteMatCSV f m"
  by (cases "segment e p sps it")
     (auto simp: image_events_throw image_events_return segment_call_def outputs_at_def
        split: if_splits)

lemma batch_events_subset:
  "set (fst (batch e p sps acc its)) \<subseteq> (\<Union>it\<in>set its. set (image_events e p sps it))"
proof (induction its arbitrary: acc)
  case Nil
  then show ?case by simp
next
  case (Cons it its)
  show ?case
  proof (cases "snd (process_image e p sps acc it)")
    case (Inl out)
    then have "batch e p sps acc (it # its) = (image_events e p sps it, Inl out)"
      using process_image_events [of e p sps acc it]
      by (cases "process_image e p sps acc it") auto
    then show ?thesis by auto
  next
    case (Inr acc')
    then have "fst (batch e p sps acc (it # its)) =
        image_events e p sps it @ fst (batch e p sps acc' its)"
      using process_image_events [of e p sps acc it]
      by (cases "process_image e p sps acc it") (auto split: prod.splits)
    with Cons [of acc'] show ?thesis by auto
  qed
qed

lemma main_events:
  assumes "snd (startup e p) = Inr (d, sps)"
  shows "snd (main e p) = fst (startup e p) @ ReadDirectory d #
            fst (batch e p sps (0, 0, 0) (readDirectory e d)) @
            (case snd (batch e p sps (0, 0, 0) (readDirectory e d)) of
               Inl out \<Rightarrow> [] | Inr acc \<Rightarrow> finish p acc)"
  by (simp add: main_reach [OF assms] split: prod.splits sum.splits)

lemma image_events_kinds:
  assumes "ev \<in> set (image_events e p sps it)"
  shows "ev = Imread (fst it) \<or> ev = segment_call e p sps it \<or> (\<exists>l. ev = Relabel l) \<or>
         (\<exists>i l. ev \<in> set (outputs_at e p sps it i l))"
proof (cases "segment e p sps it")
  case (Inl msg)
  with assms show ?thesis
    by (auto simp: image_events_throw)
next
  case (Inr r)
  obtain ls cs where "r = (ls, cs)" by (cases r) auto
  with Inr assms show ?thesis
    by (auto simp: image_events_return dest!: set_zip_rightD)
qed

subsection \<open>The content of the runtime log\<close>









lemma startup_events_kind:
  assumes "ev \<in> set (fst (startup e p))"
  shows "is_create ev \<or> ev = PrintHelp \<or> ev = PrintNotFound"
proof -
  let ?sps = "case superpixels p of None \<Rightarrow> [] | Some v \<Rightarrow> v"
  obtain ds1 ev1 where e1:
    "(if csv p \<noteq> [] then ensure_directory (directories e) (csv p) else (directories e, []))
       = (ds1, ev1)"
    by (metis surj_pair)
  obtain ds2 ev2 where e2:
    "(if vis p \<noteq> [] then ensure_directory ds1 (vis p) else (ds1, [])) = (ds2, ev2)"
    by (metis surj_pair)
  obtain ds3 ev3 where e3: "superpixel_dirs (csv p) ds2 ?sps = (ds3, ev3)"
    by (metis surj_pair)
  have p1: "\<forall>ev\<in>set ev1. is_create ev"
    using e1 ensure_directory_props(4) [of "directories e" "csv p" ds1 ev1]
    by (auto split: if_splits)
  have p2: "\<forall>ev\<in>set ev2. is_create ev"
    using e2 ensure_directory_props(4) [of ds1 "vis p" ds2 ev2]
    by (auto split: if_splits)
  have p3: "\<forall>ev\<in>set ev3. is_create ev"
    using superpixel_dirs_props [OF e3] by blast
  have "set (fst (startup e p)) \<subseteq> set ev1 \<union> set ev2 \<union> set ev3 \<union> {PrintHelp, PrintNotFound}"
    using e1 e2 e3 by (auto simp: startup_def Let_def split: option.splits if_splits)
  with assms p1 p2 p3 show ?thesis
    by blast
qed

subsection \<open>Relabelling before output\<close>

lemma rf_free: "\<forall>ev\<in>set xs. \<not> is_output ev \<Longrightarrow> relabelled_first e k s xs"
  by (induction e k s xs rule: relabelled_first.induct) auto

lemma rf_append:
  "relabelled_first e k s xs \<Longrightarrow> (\<And>k' s'. relabelled_first e k' s' ys) \<Longrightarrow>
     relabelled_first e k s (xs @ ys)"
  by (induction e k s xs rule: relabelled_first.induct) auto

lemma rf_relabels:
  "relabelled_first e k s (map Relabel ls @ ys) = relabelled_first e k (rev ls @ s) ys"
  by (induction ls arbitrary: s) auto

lemma rf_outputs_at:
  "m \<in> (\<lambda>l. fst (relabelConnectedSuperpixels e l)) ` set s \<Longrightarrow>
     relabelled_first e (fst it) s (outputs_at e p sps it j m @ ys) =
     relabelled_first e (fst it) s ys"
  by (auto simp: outputs_at_def)

lemma rf_outputs:
  assumes "set ms \<subseteq> (\<lambda>l. fst (relabelConnectedSuperpixels e l)) ` set s"
  shows "relabelled_first e (fst it) s
           (concat (map (\<lambda>(j, l). outputs_at e p sps it j l) (zip js ms)))"
  using assms
proof (induction ms arbitrary: js)
  case Nil
  then show ?case by simp
next
  case (Cons m ms)
  show ?case
  proof (cases js)
    case Nil
    then show ?thesis by simp
  next
    case (Cons j js')
    from Cons.prems have m: "m \<in> (\<lambda>l. fst (relabelConnectedSuperpixels e l)) ` set s"
      and ms: "set ms \<subseteq> (\<lambda>l. fst (relabelConnectedSuperpixels e l)) ` set s"
      by auto
    from Cons.IH [OF ms, of js'] Cons show ?thesis
      by (simp add: rf_outputs_at [OF m])
  qed
qed

lemma rf_image: "relabelled_first e k s (image_events e p sps it)"
proof (cases "segment e p sps it")
  case (Inl msg)
  then show ?thesis
    by (simp add: image_events_throw segment_call_def)
next
  case (Inr r)
  obtain ls cs where r: "r = (ls, cs)" by (cases r) auto
  have "set (map (\<lambda>l. fst (relabelConnectedSuperpixels e l)) ls)
      \<subseteq> (\<lambda>l. fst (relabelConnectedSuperpixels e l)) ` set (rev ls @ [])"
    by auto
  from rf_outputs [OF this] Inr r show ?thesis
    by (simp add: image_events_return segment_call_def rf_relabels)
qed

lemma batch_step:
  "fst (batch e p sps acc (it # its)) = image_events e p sps it \<or>
   (\<exists>acc'. fst (batch e p sps acc (it # its)) =
      image_events e p sps it @ fst (batch e p sps acc' its))"
proof (cases "snd (process_image e p sps acc it)")
  case (Inl out)
  then have "fst (batch e p sps acc (it # its)) = image_events e p sps it"
    using process_image_events [of e p sps acc it]
    by (cases "process_image e p sps acc it") auto
  then show ?thesis ..
next
  case (Inr acc')
  then have "fst (batch e p sps acc (it # its)) =
      image_events e p sps it @ fst (batch e p sps acc' its)"
    using process_image_events [of e p sps acc it]
    by (cases "process_image e p sps acc it") (auto split: prod.splits)
  then show ?thesis by blast
qed

lemma startup_no_output: "ev \<in> set (fst (startup e p)) \<Longrightarrow> \<not> is_output ev"
  using startup_events_kind [of ev e p] by (cases ev) auto

lemma rf_batch: "relabelled_first e k s (fst (batch e p sps acc its))"
proof (induction its arbitrary: acc k s)
  case Nil
  then show ?case by simp
next
  case (Cons it its)
  from batch_step [of e p sps acc it its] show ?case
  proof
    assume "fst (batch e p sps acc (it # its)) = image_events e p sps it"
    then show ?thesis by (simp add: rf_image)
  next
    assume "\<exists>acc'. fst (batch e p sps acc (it # its)) =
      image_events e p sps it @ fst (batch e p sps acc' its)"
    then obtain acc' where "fst (batch e p sps acc (it # its)) =
      image_events e p sps it @ fst (batch e p sps acc' its)" ..
    then show ?thesis
      using rf_append [OF rf_image Cons.IH] by simp
  qed
qed

lemma finish_no_output: "\<forall>ev\<in>set (finish p acc). \<not> is_output ev"
  by (cases acc) (auto simp: finish_def)

lemma rf_main: "relabelled_first e k s (snd (main e p))"
proof (cases "snd (startup e p)")
  case (Inl out)
  have "\<forall>ev\<in>set (fst (startup e p)). \<not> is_output ev"
    using startup_no_output by blast
  then show ?thesis
    by (simp add: main_early [OF Inl] rf_free)
next
  case (Inr r)
  obtain d sps where r: "r = (d, sps)" by (cases r) auto
  have a: "\<forall>ev\<in>set (fst (startup e p) @ [ReadDirectory d]). \<not> is_output ev"
    using startup_no_output by auto
  have b: "relabelled_first e k' s'
      (fst (batch e p sps (0, 0, 0) (readDirectory e d)) @
       (case snd (batch e p sps (0, 0, 0) (readDirectory e d)) of
          Inl out \<Rightarrow> [] | Inr acc \<Rightarrow> finish p acc))" for k' s'
    by (rule rf_append [OF rf_batch])
       (auto split: sum.splits intro!: rf_free [OF finish_no_output])
  have "snd (main e p) = (fst (startup e p) @ [ReadDirectory d]) @
       (fst (batch e p sps (0, 0, 0) (readDirectory e d)) @
       (case snd (batch e p sps (0, 0, 0) (readDirectory e d)) of
          Inl out \<Rightarrow> [] | Inr acc \<Rightarrow> finish p acc))"
    using main_events [of e p d sps] Inr r by simp
  then show ?thesis
    using rf_append [OF rf_free [OF a] b] by simp
qed

lemma outputs_are_outputs:
  "\<forall>ev\<in>set (concat (map (\<lambda>(j, l). outputs_at e p sps it j l) xs)). is_output ev"
  by (auto simp: outputs_at_def split: if_splits)

subsection \<open>Changing the environment\<close>

lemma startup_env:
  assumes "directories e' = directories e"
  shows "startup e' p = startup e p"
  unfolding startup_def assms ..

lemma colorChannels_env:
  "RGB e' = RGB e \<Longrightarrow> HSV e' = HSV e \<Longrightarrow> LAB e' = LAB e \<Longrightarrow>
     colorChannels e' p = colorChannels e p"
  by (simp add: colorChannels_def)

text \<open>Two environments that agree on the collaborators of the loop body, but perhaps
  not on the timer, the directories, the listing or the relabelling counts.\<close>

lemma process_image_env:
  assumes im: "imread e' = imread e" and hh: "hhts e' = hhts e" and st: "stem e' = stem e"
    and dc: "drawContours e' = drawContours e"
    and rl: "\<And>l. fst (relabelConnectedSuperpixels e' l) = fst (relabelConnectedSuperpixels e l)"
    and ch: "RGB e' = RGB e" "HSV e' = HSV e" "LAB e' = LAB e"
  shows "segment e' p sps it = segment e p sps it"
    and "completes e' p sps it = completes e p sps it"
    and "image_events e' p sps it = image_events e p sps it"
proof -
  have cc: "colorChannels e' p = colorChannels e p"
    by (rule colorChannels_env) (rule ch)+
  show sg: "segment e' p sps it = segment e p sps it"
    unfolding segment_def im hh cc ..
  have call: "segment_call e' p sps it = segment_call e p sps it"
    unfolding segment_call_def im cc ..
  have out: "outputs_at e' p sps it = outputs_at e p sps it"
    unfolding outputs_at_def im st dc ..
  show "completes e' p sps it = completes e p sps it"
    unfolding completes_def sg ..
  show "image_events e' p sps it = image_events e p sps it"
  proof (cases "segment e p sps it")
    case (Inl msg)
    then have "segment e' p sps it = Inl msg" by (simp only: sg)
    from image_events_throw [OF this] image_events_throw [OF Inl] show ?thesis
      by (simp only: call)
  next
    case (Inr r)
    obtain ls cs where r: "r = (ls, cs)" by (cases r) auto
    from Inr r have s1: "segment e p sps it = Inr (ls, cs)" by simp
    then have s2: "segment e' p sps it = Inr (ls, cs)" by (simp only: sg)
    from image_events_return [OF s2] image_events_return [OF s1] show ?thesis
      by (simp only: call out rl)
  qed
qed

lemma batch_Cons_completes:
  "completes e p sps it \<Longrightarrow>
     batch e p sps (tw, tc, c) (it # its) =
       (image_events e p sps it @
          fst (batch e p sps (tw + snd (timer e (nat c)), tc + fst (timer e (nat c)), c + 1) its),
        snd (batch e p sps (tw + snd (timer e (nat c)), tc + fst (timer e (nat c)), c + 1) its))"
  by (simp add: process_image_completes case_prod_beta)

lemma batch_Cons_stops:
  "\<not> completes e p sps it \<Longrightarrow>
     batch e p sps acc (it # its) =
       (image_events e p sps it,
        Inl (case segment e p sps it of Inl msg \<Rightarrow> Uncaught msg | Inr r \<Rightarrow> Undefined))"
  by (simp add: process_image_stops)

lemma batch_env:
  assumes ev: "\<And>it. image_events e' p sps it = image_events e p sps it"
    and co: "\<And>it. completes e' p sps it = completes e p sps it"
    and sg: "\<And>it. segment e' p sps it = segment e p sps it"
  shows "fst (batch e' p sps (tw', tc', c') its) = fst (batch e p sps (tw, tc, c) its) \<and>
     (case snd (batch e' p sps (tw', tc', c') its) of
        Inl out \<Rightarrow> snd (batch e p sps (tw, tc, c) its) = Inl out
      | Inr a' \<Rightarrow> (\<exists>a. snd (batch e p sps (tw, tc, c) its) = Inr a))"
proof (induction its arbitrary: tw tc c tw' tc' c')
  case Nil
  then show ?case by simp
next
  case (Cons it its tw tc c tw' tc' c')
  show ?case
  proof (cases "completes e p sps it")
    case True
    then have c': "completes e' p sps it" by (simp add: co)
    let ?a = "(tw + snd (timer e (nat c)), tc + fst (timer e (nat c)), c + 1)"
    let ?a' = "(tw' + snd (timer e' (nat c')), tc' + fst (timer e' (nat c')), c' + 1)"
    have L: "batch e' p sps (tw', tc', c') (it # its) =
        (image_events e p sps it @ fst (batch e' p sps ?a' its), snd (batch e' p sps ?a' its))"
      using batch_Cons_completes [OF c'] by (simp add: ev)
    have R: "batch e p sps (tw, tc, c) (it # its) =
        (image_events e p sps it @ fst (batch e p sps ?a its), snd (batch e p sps ?a its))"
      by (rule batch_Cons_completes [OF True])
    have IH: "fst (batch e' p sps ?a' its) = fst (batch e p sps ?a its) \<and>
       (case snd (batch e' p sps ?a' its) of
          Inl out \<Rightarrow> snd (batch e p sps ?a its) = Inl out
        | Inr a' \<Rightarrow> (\<exists>a. snd (batch e p sps ?a its) = Inr a))"
      by (rule Cons.IH)
    show ?thesis
      unfolding L R fst_conv snd_conv using IH by simp
  next
    case False
    then have c': "\<not> completes e' p sps it" by (simp add: co)
    show ?thesis
      unfolding batch_Cons_stops [OF False] batch_Cons_stops [OF c'] ev sg by simp
  qed
qed

lemma batch_env_same_timer:
  assumes ev: "\<And>it. image_events e' p sps it = image_events e p sps it"
    and co: "\<And>it. completes e' p sps it = completes e p sps it"
    and sg: "\<And>it. segment e' p sps it = segment e p sps it"
    and tm: "timer e' = timer e"
  shows "batch e' p sps (tw, tc, c) its = batch e p sps (tw, tc, c) its"
proof (induction its arbitrary: tw tc c)
  case Nil
  then show ?case by simp
next
  case (Cons it its tw tc c)
  show ?case
  proof (cases "completes e p sps it")
    case True
    then have c': "completes e' p sps it" by (simp add: co)
    show ?thesis
      unfolding batch_Cons_completes [OF True] batch_Cons_completes [OF c'] ev tm Cons.IH ..
  next
    case False
    then have c': "\<not> completes e' p sps it" by (simp add: co)
    show ?thesis
      unfolding batch_Cons_stops [OF False] batch_Cons_stops [OF c'] ev sg ..
  qed
qed

subsection \<open>Starting a second time\<close>

lemma ensure_directory_again: "q \<in> ds \<Longrightarrow> ensure_directory ds q = (ds, [])"
  by (simp add: ensure_directory_def is_directory_def)

lemma superpixel_dirs_again:
  "\<forall>sp\<in>set sps. path_append out (to_string sp) \<in> ds \<Longrightarrow> superpixel_dirs out ds sps = (ds, [])"
  by (induction sps) (simp_all add: ensure_directory_again)

lemma dirs_after_no_create: "\<forall>ev\<in>set xs. \<not> is_create ev \<Longrightarrow> dirs_after ds xs = ds"
proof (induction xs arbitrary: ds)
  case Nil
  then show ?case by (simp add: dirs_after_def)
next
  case (Cons ev xs)
  then have "dir_event ds ev = ds" by (cases ev) auto
  with Cons show ?case by (simp add: dirs_after_def)
qed

lemma filter_creates: "\<forall>ev\<in>set xs. is_create ev \<Longrightarrow> filter (\<lambda>ev. \<not> is_create ev) xs = []"
  by (induction xs) auto

lemma startup_again:
  "startup (e\<lparr>timer := t, directories := dirs_after (directories e) (fst (startup e p))\<rparr>) p =
     (filter (\<lambda>ev. \<not> is_create ev) (fst (startup e p)), snd (startup e p))"
proof (cases "help p")
  case True
  then show ?thesis
    by (simp add: startup_def dirs_after_def)
next
  case False
  let ?D = "directories e"
  let ?sps = "case superpixels p of None \<Rightarrow> [] | Some v \<Rightarrow> v"
  obtain ds1 ev1 where e1:
    "(if csv p \<noteq> [] then ensure_directory ?D (csv p) else (?D, [])) = (ds1, ev1)"
    by (metis surj_pair)
  obtain ds2 ev2 where e2:
    "(if vis p \<noteq> [] then ensure_directory ds1 (vis p) else (ds1, [])) = (ds2, ev2)"
    by (metis surj_pair)
  obtain ds3 ev3 where e3: "superpixel_dirs (csv p) ds2 ?sps = (ds3, ev3)"
    by (metis surj_pair)
  have p1: "ds1 = dirs_after ?D ev1" "\<forall>ev\<in>set ev1. is_create ev" "?D \<subseteq> ds1"
    "csv p \<noteq> [] \<longrightarrow> csv p \<in> ds1"
    using e1 ensure_directory_props [of ?D "csv p" ds1 ev1]
    by (auto simp: dirs_after_Nil split: if_splits)
  have p2: "ds2 = dirs_after ds1 ev2" "\<forall>ev\<in>set ev2. is_create ev" "ds1 \<subseteq> ds2"
    "vis p \<noteq> [] \<longrightarrow> vis p \<in> ds2"
    using e2 ensure_directory_props [of ds1 "vis p" ds2 ev2]
    by (auto simp: dirs_after_Nil split: if_splits)
  have p3: "ds3 = dirs_after ds2 ev3" "ds2 \<subseteq> ds3"
    "\<forall>sp\<in>set ?sps. path_append (csv p) (to_string sp) \<in> ds3" "\<forall>ev\<in>set ev3. is_create ev"
    using superpixel_dirs_props [OF e3] by blast+
  have d12: "dirs_after ?D (ev1 @ ev2) = ds2"
    using p1(1) p2(1) by (simp add: dirs_after_append)
  have d123: "dirs_after ?D (ev1 @ ev2 @ ev3) = ds3"
    using p1(1) p2(1) p3(1) by (simp add: dirs_after_append)
  have again2: "csv p \<noteq> [] \<Longrightarrow> ensure_directory ds2 (csv p) = (ds2, [])"
    "vis p \<noteq> [] \<Longrightarrow> ensure_directory ds2 (vis p) = (ds2, [])"
    using p1(4) p2(3,4) by (auto simp: ensure_directory_again)
  have again3: "csv p \<noteq> [] \<Longrightarrow> ensure_directory ds3 (csv p) = (ds3, [])"
    "vis p \<noteq> [] \<Longrightarrow> ensure_directory ds3 (vis p) = (ds3, [])"
    using p1(4) p2(3,4) p3(2) by (auto simp: ensure_directory_again)
  have f12: "filter (\<lambda>ev. \<not> is_create ev) (ev1 @ ev2) = []"
    using p1(2) p2(2) by (simp add: filter_creates)
  have f123: "filter (\<lambda>ev. \<not> is_create ev) (ev1 @ ev2 @ ev3) = []"
    using p1(2) p2(2) p3(4) by (simp add: filter_creates)
  show ?thesis
  proof (cases "input p")
    case None
    with False e1 e2 have s: "startup e p = (ev1 @ ev2, Inl (Uncaught ''boost::bad_any_cast''))"
      by (simp add: startup_def Let_def)
    show ?thesis
      unfolding s fst_conv snd_conv d12 f12
      using False None by (simp add: startup_def Let_def again2)
  next
    case (Some d)
    show ?thesis
    proof (cases "is_directory ds2 d")
      case no: False
      with False Some e1 e2 have s: "startup e p = (ev1 @ ev2 @ [PrintNotFound], Inl (Exit 1))"
        by (simp add: startup_def Let_def)
      have d: "dirs_after ?D (ev1 @ ev2 @ [PrintNotFound]) = ds2"
        using d12 by (simp add: dirs_after_def)
      have f: "filter (\<lambda>ev. \<not> is_create ev) (ev1 @ ev2 @ [PrintNotFound]) = [PrintNotFound]"
        using f12 by simp
      show ?thesis
        unfolding s fst_conv snd_conv d f
        using False Some no by (simp add: startup_def Let_def again2)
    next
      case yes: True
      with False Some e1 e2 e3 have s: "startup e p = (ev1 @ ev2 @ ev3, Inr (d, ?sps))"
        by (simp add: startup_def Let_def)
      from yes p3(2) have yes3: "is_directory ds3 d"
        by (auto simp: is_directory_def)
      have sp3: "superpixel_dirs (csv p) ds3 ?sps = (ds3, [])"
        using p3(3) by (rule superpixel_dirs_again)
      then have sp3': "csv p = [] \<Longrightarrow> superpixel_dirs [] ds3 ?sps = (ds3, [])"
        by simp
      show ?thesis
        unfolding s fst_conv snd_conv d123 f123
        using False Some yes3 by (simp add: startup_def Let_def again3 sp3 sp3')
    qed
  qed
qed

lemma image_events_no_create: "ev \<in> set (image_events e p sps it) \<Longrightarrow> \<not> is_create ev"
  using image_events_kinds [of ev e p sps it]
  by (auto simp: segment_call_def outputs_at_def split: if_splits)

lemma batch_no_create: "ev \<in> set (fst (batch e p sps acc its)) \<Longrightarrow> \<not> is_create ev"
  using batch_events_subset [of e p sps acc its] image_events_no_create by blast

lemma finish_no_create: "ev \<in> set (finish p acc) \<Longrightarrow> \<not> is_create ev"
  by (cases acc) (auto simp: finish_def split: if_splits)

lemma dirs_after_main:
  "dirs_after (directories e) (snd (main e p)) = dirs_after (directories e) (fst (startup e p))"
proof (cases "snd (startup e p)")
  case (Inl out)
  then show ?thesis
    by (simp add: main_early)
next
  case (Inr r)
  obtain d sps where "r = (d, sps)" by (cases r) auto
  with Inr have r: "snd (startup e p) = Inr (d, sps)" by simp
  let ?rest = "ReadDirectory d # fst (batch e p sps (0, 0, 0) (readDirectory e d)) @
            (case snd (batch e p sps (0, 0, 0) (readDirectory e d)) of
               Inl out \<Rightarrow> [] | Inr acc \<Rightarrow> finish p acc)"
  have "\<forall>ev\<in>set ?rest. \<not> is_create ev"
    using batch_no_create finish_no_create by (auto split: sum.splits)
  then have "dirs_after (dirs_after (directories e) (fst (startup e p))) ?rest =
      dirs_after (directories e) (fst (startup e p))"
    by (rule dirs_after_no_create)
  then show ?thesis
    unfolding main_events [OF r] dirs_after_append .
qed

lemma filter_output_startup: "filter is_output (fst (startup e p)) = []"
  using startup_no_output by (auto simp: filter_empty_conv)

lemma filter_output_finish: "filter is_output (finish p acc) = []"
  using finish_no_output by (auto simp: filter_empty_conv)

lemma image_events_hhts:
  assumes "ev \<in> set (image_events e p sps it)" and "is_hhts ev"
  shows "ev = segment_call e p sps it"
  using image_events_kinds [OF assms(1)] assms(2)
  by (auto simp: outputs_at_def split: if_splits)

lemma main_hhts_calls:
  assumes "ev \<in> set (snd (main e p))" and "is_hhts ev"
  shows "\<exists>it. ev = segment_call e p (case superpixels p of None \<Rightarrow> [] | Some v \<Rightarrow> v) it"
proof (cases "snd (startup e p)")
  case (Inl out)
  with assms(1) have "ev \<in> set (fst (startup e p))"
    by (simp add: main_early)
  from startup_events_kind [OF this] assms(2) show ?thesis
    by (cases ev) auto
next
  case (Inr r)
  obtain d sps where "r = (d, sps)" by (cases r) auto
  with Inr have r: "snd (startup e p) = Inr (d, sps)" by simp
  note sr = startup_reach [OF r]
  from assms(1) main_events [OF r] consider
      "ev \<in> set (fst (startup e p))"
    | "ev = ReadDirectory d"
    | "ev \<in> set (fst (batch e p sps (0, 0, 0) (readDirectory e d)))"
    | acc where "ev \<in> set (finish p acc)"
    by (auto split: sum.splits)
  then show ?thesis
  proof cases
    case 1
    from startup_events_kind [OF this] assms(2) show ?thesis
      by (cases ev) auto
  next
    case 2
    with assms(2) show ?thesis by simp
  next
    case 3
    with batch_events_subset obtain it where "ev \<in> set (image_events e p sps it)"
      by blast
    from image_events_hhts [OF this assms(2)] sr(3) show ?thesis
      by blast
  next
    case 4
    with assms(2) show ?thesis
      by (cases acc) (auto simp: finish_def split: if_splits)
  qed
qed

subsection \<open>The start of a pass through the loop body\<close>

lemma image_events_start:
  "\<exists>tail. image_events e p sps it = [Imread (fst it), segment_call e p sps it] @ tail"
  by (cases "segment e p sps it") (auto simp: image_events_throw image_events_return)

lemma batch_complete_then:
  assumes "\<forall>x\<in>set pre. completes e p sps x"
  shows "\<exists>acc. batch e p sps (0, 0, 0) (pre @ rest) =
     (concat (map (image_events e p sps) pre) @ fst (batch e p sps acc rest),
      snd (batch e p sps acc rest))"
  using batch_complete_prefix [OF assms, of 0 0 0 rest] by auto

lemma colorChannels_none: "nrgb p \<Longrightarrow> nhsv p \<Longrightarrow> nlab p \<Longrightarrow> colorChannels e p = 0"
  by (simp add: colorChannels_def)

subsection \<open>The small run, evaluated\<close>

lemmas example_simps =
  example_env_def strict_env_def example_parameters_def startup_def ensure_directory_def
  is_directory_def create_directories_def superpixel_dirs.simps path_append_def
  to_string_def to_string_nat.simps digit_def Let_def parents_def

lemma example_startup:
  "startup example_env example_parameters =
     ([CreateDirectories ''out'', CreateDirectories ''out/2'', CreateDirectories ''out/5''],
      Inr (''imgs'', [2, 5]))"
  by (simp add: example_simps)

lemma example_fields:
  "help example_parameters = False"
  "input example_parameters = Some ''imgs''"
  "superpixels example_parameters = Some [2, 5]"
  "splitThreshold example_parameters = 0"
  "nrgb example_parameters = False"
  "nhsv example_parameters = False"
  "nlab example_parameters = False"
  "blur example_parameters = False"
  "bins example_parameters = 32"
  "minSize example_parameters = 64"
  "csv example_parameters = ''out''"
  "vis example_parameters = []"
  "prefix example_parameters = []"
  "wordy example_parameters = False"
  by (simp_all add: example_parameters_def)

lemma example_main:
  "main example_env example_parameters =
   (Exit 0,
    [CreateDirectories ''out'', CreateDirectories ''out/2'', CreateDirectories ''out/5'',
     ReadDirectory ''imgs'',
     Imread ''imgs/a.png'', Hhts [] [2, 5] 0 32 64 7 False, Relabel [], Relabel [],
     WriteMatCSV ''out/2/a.csv'' [], WriteMatCSV ''out/5/a.csv'' [],
     Imread ''imgs/b.png'', Hhts [[10, 20], [30, 40]] [2, 5] 0 32 64 7 False,
     Relabel [[0, 0], [0, 0]], Relabel [[0, 0], [0, 0]],
     WriteMatCSV ''out/2/b.csv'' [[0, 0], [0, 0]], WriteMatCSV ''out/5/b.csv'' [[0, 0], [0, 0]],
     AppendRuntime ''out/runtime.txt'' (Finite 1) (Finite 3)])"
  by (simp add: main_def example_startup)
     (simp add: example_simps process_image_def colorChannels_def finish_def ddiv_def)

lemma example_listing:
  "readDirectory example_env ''imgs'' =
     [(''imgs/a.png'', ''imgs/a.png''), (''imgs/b.png'', ''imgs/b.png'')]"
  by (simp add: example_env_def)


section \<open>The claims\<close>

text \<open>
  In the theorems below, \<open>snd (startup e p) = Inr (d, sps)\<close> says that the run gets as far
  as listing the input directory \<open>d\<close>: \<^verbatim>\<open>--help\<close> is not given, \<^verbatim>\<open>input\<close> is given and is a
  directory (lemma \<open>startup_reach\<close>; \<open>startup_passes\<close> gives a sufficient condition), and
  \<open>sps\<close> is the list of target counts.
\<close>

subsection \<open>C1: an image that cannot be decoded\<close>

text \<open>
  C1 says that an image that cannot be decoded is skipped. \<^verbatim>\<open>main\<close> never tests the matrix
  \<^verbatim>\<open>cv::imread\<close> returns. In the small run \<^verbatim>\<open>a.png\<close> cannot be decoded: its empty matrix is
  passed to \<^verbatim>\<open>hhts\<close>, the two label matrices that come back are relabelled and written to
  \<^verbatim>\<open>out/2/a.csv\<close> and \<^verbatim>\<open>out/5/a.csv\<close>, and the image counts in the averages (two images, two
  seconds of CPU time, average 1).
\<close>

theorem undecodable_image_not_skipped_counterexample:
  "imread example_env ''imgs/a.png'' = [] \<and>
   main example_env example_parameters =
   (Exit 0,
    [CreateDirectories ''out'', CreateDirectories ''out/2'', CreateDirectories ''out/5'',
     ReadDirectory ''imgs'',
     Imread ''imgs/a.png'', Hhts [] [2, 5] 0 32 64 7 False, Relabel [], Relabel [],
     WriteMatCSV ''out/2/a.csv'' [], WriteMatCSV ''out/5/a.csv'' [],
     Imread ''imgs/b.png'', Hhts [[10, 20], [30, 40]] [2, 5] 0 32 64 7 False,
     Relabel [[0, 0], [0, 0]], Relabel [[0, 0], [0, 0]],
     WriteMatCSV ''out/2/b.csv'' [[0, 0], [0, 0]], WriteMatCSV ''out/5/b.csv'' [[0, 0], [0, 0]],
     AppendRuntime ''out/runtime.txt'' (Finite 1) (Finite 3)])"
  by (simp add: example_main) (simp add: example_env_def)

text \<open>
  C1, as amended. Take a run that gets to the batch, and an entry of the listing that
  \<^verbatim>\<open>imread\<close> cannot decode, all entries before it having gone through the loop body. The
  entry is not skipped: it is read, and \<^verbatim>\<open>hhts\<close> is called on the empty matrix with the
  arguments of any other image. If that call throws, nothing catches the exception: the
  program ends there, and the entries after it are never read. If it returns, all the
  label matrices it returns are relabelled like those of any other image.
\<close>

theorem undecodable_image_not_skipped:
  assumes "snd (startup e p) = Inr (d, sps)"
    and "readDirectory e d = pre @ it # post"
    and "\<forall>x\<in>set pre. completes e p sps x"
    and "imread e (fst it) = []"
  shows "(\<exists>tail. snd (main e p) =
            fst (startup e p) @ [ReadDirectory d] @ concat (map (image_events e p sps) pre) @
            [Imread (fst it),
             Hhts [] sps (splitThreshold p) (bins p) (minSize p) (colorChannels e p) (blur p)] @
            tail) \<and>
         (\<forall>msg. hhts e [] sps (splitThreshold p) (bins p) (minSize p) (colorChannels e p) (blur p)
                  = Inl msg \<longrightarrow>
            main e p =
              (Uncaught msg,
               fst (startup e p) @ [ReadDirectory d] @ concat (map (image_events e p sps) pre) @
               [Imread (fst it),
                Hhts [] sps (splitThreshold p) (bins p) (minSize p) (colorChannels e p)
                  (blur p)])) \<and>
         (\<forall>ls cs. hhts e [] sps (splitThreshold p) (bins p) (minSize p) (colorChannels e p) (blur p)
                  = Inr (ls, cs) \<longrightarrow>
            (\<exists>tail. snd (main e p) =
               fst (startup e p) @ [ReadDirectory d] @ concat (map (image_events e p sps) pre) @
               [Imread (fst it),
                Hhts [] sps (splitThreshold p) (bins p) (minSize p) (colorChannels e p) (blur p)] @
               map Relabel ls @ tail))"
proof -
  let ?call = "Hhts [] sps (splitThreshold p) (bins p) (minSize p) (colorChannels e p) (blur p)"
  let ?head = "fst (startup e p) @ [ReadDirectory d] @ concat (map (image_events e p sps) pre)"
  have call: "segment_call e p sps it = ?call"
    using assms(4) by (simp add: segment_call_def)
  have seg: "segment e p sps it =
      hhts e [] sps (splitThreshold p) (bins p) (minSize p) (colorChannels e p) (blur p)"
    using assms(4) by (simp add: segment_def)
  from batch_complete_then [OF assms(3), of "it # post"] obtain acc where
    b: "batch e p sps (0, 0, 0) (pre @ it # post) =
     (concat (map (image_events e p sps) pre) @ fst (batch e p sps acc (it # post)),
      snd (batch e p sps acc (it # post)))"
    by blast
  have tr: "snd (main e p) = ?head @ fst (batch e p sps acc (it # post)) @
      (case snd (batch e p sps acc (it # post)) of Inl out \<Rightarrow> [] | Inr a \<Rightarrow> finish p a)"
    using main_events [OF assms(1)] by (simp add: assms(2) b)
  from batch_step [of e p sps acc it post] obtain more where
    st: "fst (batch e p sps acc (it # post)) = image_events e p sps it @ more"
    by (metis append_Nil2)
  have first: "\<exists>tail. snd (main e p) = ?head @ [Imread (fst it), ?call] @ tail"
  proof -
    from image_events_start [of e p sps it] obtain t1 where
      "image_events e p sps it = [Imread (fst it), ?call] @ t1"
      unfolding call by blast
    with tr st show ?thesis by simp
  qed
  have throws: "main e p = (Uncaught msg, ?head @ [Imread (fst it), ?call])"
    if "hhts e [] sps (splitThreshold p) (bins p) (minSize p) (colorChannels e p) (blur p)
          = Inl msg" for msg
  proof -
    from that seg have s: "segment e p sps it = Inl msg" by simp
    then have nc: "\<not> completes e p sps it" by (simp add: completes_def)
    from main_stops [OF assms(1,2,3) nc] s call show ?thesis
      by (simp add: image_events_throw)
  qed
  have returns: "\<exists>tail. snd (main e p) = ?head @ [Imread (fst it), ?call] @ map Relabel ls @ tail"
    if "hhts e [] sps (splitThreshold p) (bins p) (minSize p) (colorChannels e p) (blur p)
          = Inr (ls, cs)" for ls cs
  proof -
    from that seg have s: "segment e p sps it = Inr (ls, cs)" by simp
    from image_events_return [OF s] tr st call show ?thesis by simp
  qed
  from first throws returns show ?thesis
    unfolding append_assoc by blast
qed

text \<open>The small run with an \<^verbatim>\<open>hhts\<close> that throws on an empty image: \<^verbatim>\<open>b.png\<close> is never read.\<close>

theorem undecodable_image_not_skipped_witness:
  "snd (startup strict_env example_parameters) = Inr (''imgs'', [2, 5]) \<and>
   readDirectory strict_env ''imgs'' =
     [] @ (''imgs/a.png'', ''imgs/a.png'') # [(''imgs/b.png'', ''imgs/b.png'')] \<and>
   imread strict_env ''imgs/a.png'' = [] \<and>
   hhts strict_env [] [2, 5] 0 32 64 7 False = Inl ''empty image'' \<and>
   main strict_env example_parameters =
     (Uncaught ''empty image'',
      [CreateDirectories ''out'', CreateDirectories ''out/2'', CreateDirectories ''out/5'',
       ReadDirectory ''imgs'', Imread ''imgs/a.png'', Hhts [] [2, 5] 0 32 64 7 False])"
proof -
  let ?it = "(''imgs/a.png'', ''imgs/a.png'')"
  have s: "startup strict_env example_parameters =
     ([CreateDirectories ''out'', CreateDirectories ''out/2'', CreateDirectories ''out/5''],
      Inr (''imgs'', [2, 5]))"
    by (simp add: example_simps)
  have h1: "snd (startup strict_env example_parameters) = Inr (''imgs'', [2, 5])"
    by (simp add: s)
  have h2: "readDirectory strict_env ''imgs'' = [] @ ?it # [(''imgs/b.png'', ''imgs/b.png'')]"
    by (simp add: strict_env_def example_env_def)
  have h3: "\<forall>x\<in>set []. completes strict_env example_parameters [2, 5] x"
    by simp
  have h4: "imread strict_env (fst ?it) = []"
    by (simp add: strict_env_def example_env_def)
  have cc: "colorChannels strict_env example_parameters = 7"
    by (simp add: colorChannels_def strict_env_def example_env_def example_fields)
  have th: "hhts strict_env [] [2, 5] 0 32 64 7 False = Inl ''empty image''"
    by (simp add: strict_env_def)
  from undecodable_image_not_skipped [OF h1 h2 h3 h4] th
  have "main strict_env example_parameters =
     (Uncaught ''empty image'',
      [CreateDirectories ''out'', CreateDirectories ''out/2'', CreateDirectories ''out/5'',
       ReadDirectory ''imgs'', Imread ''imgs/a.png'', Hhts [] [2, 5] 0 32 64 7 False])"
    by (simp add: s cc example_fields)
  with h1 h2 h4 th show ?thesis
    by simp
qed

subsection \<open>C2: an invalid configuration\<close>

text \<open>
  C2 says that a run whose configuration is invalid is aborted, with the error reported,
  before any image is processed. \<^verbatim>\<open>main\<close> makes no such check. Run the program on \<^verbatim>\<open>imgs\<close>
  with \<^verbatim>\<open>--nrgb --nhsv --nlab --bins 0 -o out\<close> and no target counts: it reports nothing,
  reads both images, calls \<^verbatim>\<open>hhts\<close> on each with the channel mask 0, 0 bins and an empty
  list of target counts, appends the runtime line and returns 0.
\<close>

theorem configuration_not_validated_counterexample:
  "main example_env
     (example_parameters\<lparr>nrgb := True, nhsv := True, nlab := True, bins := 0,
                           superpixels := None\<rparr>) =
   (Exit 0,
    [CreateDirectories ''out'', ReadDirectory ''imgs'',
     Imread ''imgs/a.png'', Hhts [] [] 0 0 64 0 False,
     Imread ''imgs/b.png'', Hhts [[10, 20], [30, 40]] [] 0 0 64 0 False,
     AppendRuntime ''out/runtime.txt'' (Finite 1) (Finite 3)])"
proof -
  let ?p = "example_parameters\<lparr>nrgb := True, nhsv := True, nlab := True, bins := 0,
                           superpixels := None\<rparr>"
  have s: "startup example_env ?p = ([CreateDirectories ''out''], Inr (''imgs'', []))"
    by (simp add: example_simps)
  show ?thesis
    by (simp add: main_def s)
       (simp add: example_env_def example_parameters_def process_image_def colorChannels_def
          finish_def ddiv_def Let_def)
qed

text \<open>
  C2, as amended. Whatever the configuration, valid or not: when \<^verbatim>\<open>--help\<close> is not given
  and the input directory exists and holds an image, \<^verbatim>\<open>main\<close> makes nothing but directory
  calls, lists the directory, reads the first image and calls \<^verbatim>\<open>hhts\<close> on it with the
  values as given: the target counts (none when the option is absent), \<^verbatim>\<open>bins\<close> unchecked,
  and the channel mask, which is 0 when all three channels are switched off. Unless a
  pass through the loop body fails, the run returns 0.
\<close>

theorem configuration_not_validated:
  assumes "\<not> help p" and "input p = Some d" and "d \<in> directories e"
    and "readDirectory e d = it # rest"
  shows "(\<forall>ev\<in>set (fst (startup e p)). is_create ev) \<and>
     (\<exists>tail. snd (main e p) =
        fst (startup e p) @
        [ReadDirectory d, Imread (fst it),
         Hhts (imread e (fst it)) (case superpixels p of None \<Rightarrow> [] | Some v \<Rightarrow> v)
           (splitThreshold p) (bins p) (minSize p) (colorChannels e p) (blur p)] @ tail) \<and>
     (nrgb p \<and> nhsv p \<and> nlab p \<longrightarrow> colorChannels e p = 0) \<and>
     ((\<forall>x\<in>set (it # rest).
         completes e p (case superpixels p of None \<Rightarrow> [] | Some v \<Rightarrow> v) x) \<longrightarrow>
      fst (main e p) = Exit 0)"
proof -
  let ?sps = "case superpixels p of None \<Rightarrow> [] | Some v \<Rightarrow> v"
  have r: "snd (startup e p) = Inr (d, ?sps)"
    by (rule startup_passes [OF assms(1,2,3)])
  note sr = startup_reach [OF r]
  from batch_step [of e p ?sps "(0, 0, 0)" it rest] obtain more where
    st: "fst (batch e p ?sps (0, 0, 0) (it # rest)) = image_events e p ?sps it @ more"
    by (metis append_Nil2)
  from image_events_start [of e p ?sps it] obtain t1 where
    ie: "image_events e p ?sps it = [Imread (fst it), segment_call e p ?sps it] @ t1"
    by blast
  have "\<exists>tail. snd (main e p) =
        fst (startup e p) @
        [ReadDirectory d, Imread (fst it),
         Hhts (imread e (fst it)) ?sps (splitThreshold p) (bins p) (minSize p)
           (colorChannels e p) (blur p)] @ tail"
    using main_events [OF r] st ie by (simp add: assms(4) segment_call_def)
  moreover have "fst (main e p) = Exit 0" if "\<forall>x\<in>set (it # rest). completes e p ?sps x"
    using main_completes [OF r] that by (simp add: assms(4))
  ultimately show ?thesis
    using sr(4) colorChannels_none by blast
qed

text \<open>The run of the counterexample, up to its first \<^verbatim>\<open>hhts\<close> call.\<close>

theorem configuration_not_validated_witness:
  "\<not> help (example_parameters\<lparr>nrgb := True, nhsv := True, nlab := True, bins := 0,
                                 superpixels := None\<rparr>) \<and>
   input (example_parameters\<lparr>nrgb := True, nhsv := True, nlab := True, bins := 0,
                                superpixels := None\<rparr>) = Some ''imgs'' \<and>
   ''imgs'' \<in> directories example_env \<and>
   readDirectory example_env ''imgs'' =
     [(''imgs/a.png'', ''imgs/a.png''), (''imgs/b.png'', ''imgs/b.png'')] \<and>
   (\<exists>tail. snd (main example_env
                   (example_parameters\<lparr>nrgb := True, nhsv := True, nlab := True, bins := 0,
                                         superpixels := None\<rparr>)) =
      [CreateDirectories ''out'', ReadDirectory ''imgs'', Imread ''imgs/a.png'',
       Hhts [] [] 0 0 64 0 False] @ tail)"
proof -
  let ?p = "example_parameters\<lparr>nrgb := True, nhsv := True, nlab := True, bins := 0,
                           superpixels := None\<rparr>"
  have s: "startup example_env ?p = ([CreateDirectories ''out''], Inr (''imgs'', []))"
    by (simp add: example_simps)
  have h1: "\<not> help ?p" and h2: "input ?p = Some ''imgs''"
    by (simp_all add: example_fields)
  have h3: "''imgs'' \<in> directories example_env"
    by (simp add: example_env_def)
  have cc: "colorChannels example_env ?p = 0"
    by (simp add: colorChannels_def)
  have im: "imread example_env ''imgs/a.png'' = []"
    by (simp add: example_env_def)
  from configuration_not_validated [OF h1 h2 h3 example_listing]
  have "\<exists>tail. snd (main example_env ?p) =
      [CreateDirectories ''out'', ReadDirectory ''imgs'', Imread ''imgs/a.png'',
       Hhts [] [] 0 0 64 0 False] @ tail"
    by (simp add: s cc im example_fields)
  with h1 h2 h3 example_listing show ?thesis
    by simp
qed

subsection \<open>C3: connectivity enforcement comes first\<close>

text \<open>
  C3. In every run, every matrix that is written as CSV, and every matrix whose contours
  are drawn and written as an image, is the result of a \<^verbatim>\<open>relabelConnectedSuperpixels\<close> call
  made earlier in the same pass through the loop body. The calls are not guarded by any
  option: in every pass in which \<^verbatim>\<open>hhts\<close> returns, whatever the parameters, the
  accumulated times and the image, all returned label matrices are relabelled, in order,
  right after the \<^verbatim>\<open>hhts\<close> call, and only output calls follow. (The options of \<^verbatim>\<open>main\<close> hold
  no no-merge setting, see C6.)
\<close>

theorem relabel_before_output:
  "relabelled_first e k [] (snd (main e p)) \<and>
   (\<forall>sps acc it ls cs.
      segment e p sps it = Inr (ls, cs) \<longrightarrow>
      (\<exists>outs. fst (process_image e p sps acc it) =
                 [Imread (fst it), segment_call e p sps it] @ map Relabel ls @ outs \<and>
              (\<forall>ev\<in>set outs. is_output ev)))"
proof (intro conjI allI impI)
  show "relabelled_first e k [] (snd (main e p))"
    by (rule rf_main)
next
  fix sps acc it ls cs
  assume "segment e p sps it = Inr (ls, cs)"
  then show "\<exists>outs. fst (process_image e p sps acc it) =
                 [Imread (fst it), segment_call e p sps it] @ map Relabel ls @ outs \<and>
              (\<forall>ev\<in>set outs. is_output ev)"
    using outputs_are_outputs
    by (simp add: process_image_events image_events_return)
qed

text \<open>The small run, and its second image.\<close>

theorem relabel_before_output_witness:
  "segment example_env example_parameters [2, 5] (''imgs/b.png'', ''imgs/b.png'') =
     Inr ([[[0, 0], [0, 0]], [[0, 0], [0, 0]]], [1, 1]) \<and>
   relabelled_first example_env [] [] (snd (main example_env example_parameters)) \<and>
   (\<exists>outs. fst (process_image example_env example_parameters [2, 5] (0, 0, 0)
                  (''imgs/b.png'', ''imgs/b.png'')) =
             [Imread ''imgs/b.png'', Hhts [[10, 20], [30, 40]] [2, 5] 0 32 64 7 False,
              Relabel [[0, 0], [0, 0]], Relabel [[0, 0], [0, 0]]] @ outs \<and>
           (\<forall>ev\<in>set outs. is_output ev))"
proof -
  let ?it = "(''imgs/b.png'', ''imgs/b.png'')"
  have sg: "segment example_env example_parameters [2, 5] ?it =
     Inr ([[[0, 0], [0, 0]], [[0, 0], [0, 0]]], [1, 1])"
    by (simp add: segment_def example_env_def)
  have call: "segment_call example_env example_parameters [2, 5] ?it =
     Hhts [[10, 20], [30, 40]] [2, 5] 0 32 64 7 False"
    by (simp add: segment_call_def colorChannels_def example_env_def example_fields)
  note t = relabel_before_output [of example_env "[]" example_parameters]
  from t have a: "relabelled_first example_env [] [] (snd (main example_env example_parameters))"
    by (rule conjunct1)
  from t sg have "\<exists>outs. fst (process_image example_env example_parameters [2, 5] (0, 0, 0) ?it) =
       [Imread (fst ?it), segment_call example_env example_parameters [2, 5] ?it] @
       map Relabel [[[0, 0], [0, 0]], [[0, 0], [0, 0]]] @ outs \<and>
       (\<forall>ev\<in>set outs. is_output ev)"
    by blast
  with sg a call show ?thesis
    by simp
qed

subsection \<open>C4: where the label matrices are written\<close>


text \<open>
  The contour images go the other way. With \<^verbatim>\<open>-o out -v vis\<close> the program creates \<^verbatim>\<open>out\<close>,
  \<^verbatim>\<open>vis\<close>, \<^verbatim>\<open>out/2\<close> and \<^verbatim>\<open>out/5\<close> (lines 78-94 and 115-121), and never \<^verbatim>\<open>vis/2\<close> or \<^verbatim>\<open>vis/5\<close>,
  the directories of the files that line 228 hands to \<^verbatim>\<open>cv::imwrite\<close>. The label matrix of
  \<^verbatim>\<open>b.png\<close> for the first count is in \<^verbatim>\<open>out/2/b.csv\<close> afterwards; its contour image is not in
  \<^verbatim>\<open>vis/2/b.png\<close>.
\<close>

lemma contour_directories_not_created:
  "filter is_create (snd (main example_env (example_parameters\<lparr>vis := ''vis''\<rparr>))) =
     [CreateDirectories ''out'', CreateDirectories ''vis'', CreateDirectories ''out/2'',
      CreateDirectories ''out/5''] \<and>
   Imwrite ''vis/2/b.png'' [[10, 20], [30, 40]]
     \<in> set (snd (main example_env (example_parameters\<lparr>vis := ''vis''\<rparr>))) \<and>
   ''vis/2'' \<notin> dirs_after (directories example_env)
                 (snd (main example_env (example_parameters\<lparr>vis := ''vis''\<rparr>))) \<and>
   file_after (directories example_env) ''vis/2/b.png'' []
     (snd (main example_env (example_parameters\<lparr>vis := ''vis''\<rparr>))) = [] \<and>
   file_after (directories example_env) ''out/2/b.csv'' []
     (snd (main example_env (example_parameters\<lparr>vis := ''vis''\<rparr>))) =
     [CsvData [[0, 0], [0, 0]]]"
proof -
  have s: "startup example_env (example_parameters\<lparr>vis := ''vis''\<rparr>) =
     ([CreateDirectories ''out'', CreateDirectories ''vis'', CreateDirectories ''out/2'',
       CreateDirectories ''out/5''], Inr (''imgs'', [2, 5]))"
    by (simp add: example_simps)
  have m: "main example_env (example_parameters\<lparr>vis := ''vis''\<rparr>) =
     (Exit 0,
      [CreateDirectories ''out'', CreateDirectories ''vis'', CreateDirectories ''out/2'',
       CreateDirectories ''out/5'', ReadDirectory ''imgs'',
       Imread ''imgs/a.png'', Hhts [] [2, 5] 0 32 64 7 False, Relabel [], Relabel [],
       WriteMatCSV ''out/2/a.csv'' [], Imwrite ''vis/2/a.png'' [],
       WriteMatCSV ''out/5/a.csv'' [], Imwrite ''vis/5/a.png'' [],
       Imread ''imgs/b.png'', Hhts [[10, 20], [30, 40]] [2, 5] 0 32 64 7 False,
       Relabel [[0, 0], [0, 0]], Relabel [[0, 0], [0, 0]],
       WriteMatCSV ''out/2/b.csv'' [[0, 0], [0, 0]], Imwrite ''vis/2/b.png'' [[10, 20], [30, 40]],
       WriteMatCSV ''out/5/b.csv'' [[0, 0], [0, 0]], Imwrite ''vis/5/b.png'' [[10, 20], [30, 40]],
       AppendRuntime ''out/runtime.txt'' (Finite 1) (Finite 3)])"
    by (simp add: main_def s example_fields)
       (simp add: example_simps process_image_def colorChannels_def finish_def ddiv_def)
  show ?thesis
    unfolding m
    by (simp add: example_simps dirs_after_def parent_dir_def can_open_def parents_from.simps)
qed

subsection \<open>C5: the runtime log\<close>




text \<open>
  A prefix that names a directory is another matter. With \<^verbatim>\<open>-x x/\<close> the log is
  \<^verbatim>\<open>out/x/runtime.txt\<close>, and nothing creates \<^verbatim>\<open>out/x\<close>: the stream of line 240 does not open,
  lines 243-244 go on without a test, and the line is lost.
\<close>

lemma runtime_line_lost_under_prefix_directory:
  "AppendRuntime ''out/x/runtime.txt'' (Finite 1) (Finite 3)
     \<in> set (snd (main example_env (example_parameters\<lparr>prefix := ''x/''\<rparr>))) \<and>
   ''out/x'' \<notin> dirs_after (directories example_env)
                 (snd (main example_env (example_parameters\<lparr>prefix := ''x/''\<rparr>))) \<and>
   file_after (directories example_env) ''out/x/runtime.txt'' [RuntimeLine (Finite 7) (Finite 9)]
     (snd (main example_env (example_parameters\<lparr>prefix := ''x/''\<rparr>))) =
     [RuntimeLine (Finite 7) (Finite 9)]"
proof -
  have s: "startup example_env (example_parameters\<lparr>prefix := ''x/''\<rparr>) =
     ([CreateDirectories ''out'', CreateDirectories ''out/2'', CreateDirectories ''out/5''],
      Inr (''imgs'', [2, 5]))"
    by (simp add: example_simps)
  have m: "main example_env (example_parameters\<lparr>prefix := ''x/''\<rparr>) =
     (Exit 0,
      [CreateDirectories ''out'', CreateDirectories ''out/2'', CreateDirectories ''out/5'',
       ReadDirectory ''imgs'',
       Imread ''imgs/a.png'', Hhts [] [2, 5] 0 32 64 7 False, Relabel [], Relabel [],
       WriteMatCSV ''out/2/x/a.csv'' [], WriteMatCSV ''out/5/x/a.csv'' [],
       Imread ''imgs/b.png'', Hhts [[10, 20], [30, 40]] [2, 5] 0 32 64 7 False,
       Relabel [[0, 0], [0, 0]], Relabel [[0, 0], [0, 0]],
       WriteMatCSV ''out/2/x/b.csv'' [[0, 0], [0, 0]], WriteMatCSV ''out/5/x/b.csv'' [[0, 0], [0, 0]],
       AppendRuntime ''out/x/runtime.txt'' (Finite 1) (Finite 3)])"
    by (simp add: main_def s example_fields)
       (simp add: example_simps process_image_def colorChannels_def finish_def ddiv_def)
  show ?thesis
    unfolding m
    by (simp add: example_simps dirs_after_def parent_dir_def can_open_def parents_from.simps)
qed

subsection \<open>C6: no skip-merge switch\<close>

text \<open>
  C6 says that the configuration holds a skip-merge switch which is passed to the core
  engine. The options \<^verbatim>\<open>main\<close> declares hold none: \<^verbatim>\<open>nomerge\<close> is not a declared option, and
  the switches are \<^verbatim>\<open>help\<close>, \<^verbatim>\<open>nrgb\<close>, \<^verbatim>\<open>nhsv\<close>, \<^verbatim>\<open>nlab\<close>, \<^verbatim>\<open>blur\<close> and \<^verbatim>\<open>wordy\<close>. (The comment
  above \<^verbatim>\<open>main\<close> lists \<^verbatim>\<open>--nomerge\<close>, among options of a program \<^verbatim>\<open>hts_cli\<close> none of which
  \<^verbatim>\<open>main\<close> declares.)
\<close>

theorem no_merge_switch_counterexample:
  "\<not> declared ''nomerge'' \<and>
   switches = [''help'', ''nrgb'', ''nhsv'', ''nlab'', ''blur'', ''wordy'']"
  by (simp add: declared_def switches_def desc_def)

text \<open>
  C6, as amended. No skip-merge switch exists, and every call of \<^verbatim>\<open>HHTS::hhts\<close> in a run has
  the arguments of line 190: the matrix read for some file, the target counts (empty
  when the option is absent), \<^verbatim>\<open>splitThreshold\<close>, \<^verbatim>\<open>bins\<close>, \<^verbatim>\<open>minSize\<close>, the channel mask and
  the blur flag. The only value about merging that reaches the engine is the minimum
  segment size.
\<close>

theorem engine_arguments:
  "\<not> declared ''nomerge'' \<and>
   (\<forall>ev\<in>set (snd (main e p)).
      is_hhts ev \<longrightarrow>
      (\<exists>k. ev = Hhts (imread e k) (case superpixels p of None \<Rightarrow> [] | Some v \<Rightarrow> v)
                   (splitThreshold p) (bins p) (minSize p) (colorChannels e p) (blur p)))"
proof (intro conjI ballI impI)
  show "\<not> declared ''nomerge''"
    by (simp add: declared_def desc_def)
next
  fix ev
  assume "ev \<in> set (snd (main e p))" and "is_hhts ev"
  from main_hhts_calls [OF this] show
    "\<exists>k. ev = Hhts (imread e k) (case superpixels p of None \<Rightarrow> [] | Some v \<Rightarrow> v)
                   (splitThreshold p) (bins p) (minSize p) (colorChannels e p) (blur p)"
    by (auto simp: segment_call_def)
qed

text \<open>The second \<^verbatim>\<open>hhts\<close> call of the small run.\<close>

theorem engine_arguments_witness:
  "Hhts [[10, 20], [30, 40]] [2, 5] 0 32 64 7 False
     \<in> set (snd (main example_env example_parameters)) \<and>
   is_hhts (Hhts [[10, 20], [30, 40]] [2, 5] 0 32 64 7 False) \<and>
   (\<exists>k. Hhts [[10, 20], [30, 40]] [2, 5] 0 32 64 7 False =
         Hhts (imread example_env k) [2, 5] (splitThreshold example_parameters)
           (bins example_parameters) (minSize example_parameters)
           (colorChannels example_env example_parameters) (blur example_parameters))"
proof -
  have m: "Hhts [[10, 20], [30, 40]] [2, 5] 0 32 64 7 False
     \<in> set (snd (main example_env example_parameters))"
    by (simp add: example_main)
  have h: "is_hhts (Hhts [[10, 20], [30, 40]] [2, 5] 0 32 64 7 False)"
    by simp
  from engine_arguments [of example_env example_parameters] m h
  have "\<exists>k. Hhts [[10, 20], [30, 40]] [2, 5] 0 32 64 7 False =
         Hhts (imread example_env k)
           (case superpixels example_parameters of None \<Rightarrow> [] | Some v \<Rightarrow> v)
           (splitThreshold example_parameters)
           (bins example_parameters) (minSize example_parameters)
           (colorChannels example_env example_parameters) (blur example_parameters)"
    by blast
  with m h show ?thesis
    by (simp add: example_fields)
qed

subsection \<open>C7: the repair counts are not used\<close>

text \<open>
  C7. The count \<^verbatim>\<open>relabelConnectedSuperpixels\<close> returns is assigned to a local variable
  and never read (lines 202-212 use it in comments only). So for two environments that
  differ only in the counts returned, the program ends the same way and makes exactly
  the same calls with the same arguments: every CSV file, every contour image and the
  runtime line are the same.
\<close>

theorem repair_count_unused:
  "main (e\<lparr>relabelConnectedSuperpixels :=
             \<lambda>l. (fst (relabelConnectedSuperpixels e l), c l)\<rparr>) p = main e p"
proof -
  let ?e = "e\<lparr>relabelConnectedSuperpixels := \<lambda>l. (fst (relabelConnectedSuperpixels e l), c l)\<rparr>"
  have b: "batch ?e p sps (tw, tc, n) its = batch e p sps (tw, tc, n) its" for sps tw tc n its
    by (rule batch_env_same_timer; (rule process_image_env)?; simp)
  have s: "startup ?e p = startup e p"
    by (rule startup_env) simp
  have rd: "readDirectory ?e = readDirectory e"
    by simp
  show ?thesis
  proof (cases "snd (startup e p)")
    case (Inl out)
    then have "snd (startup ?e p) = Inl out" by (simp only: s)
    from main_early [OF this] main_early [OF Inl] show ?thesis
      by (simp only: s)
  next
    case (Inr r)
    obtain d sps where "r = (d, sps)" by (cases r) auto
    with Inr have r: "snd (startup e p) = Inr (d, sps)" by simp
    then have r': "snd (startup ?e p) = Inr (d, sps)" by (simp only: s)
    show ?thesis
      unfolding main_reach [OF r] main_reach [OF r'] s b rd ..
  qed
qed

text \<open>The small run, with every repair count changed to 99.\<close>

theorem repair_count_unused_witness:
  "main (example_env\<lparr>relabelConnectedSuperpixels :=
           \<lambda>l. (fst (relabelConnectedSuperpixels example_env l), 99)\<rparr>) example_parameters =
   (Exit 0,
    [CreateDirectories ''out'', CreateDirectories ''out/2'', CreateDirectories ''out/5'',
     ReadDirectory ''imgs'',
     Imread ''imgs/a.png'', Hhts [] [2, 5] 0 32 64 7 False, Relabel [], Relabel [],
     WriteMatCSV ''out/2/a.csv'' [], WriteMatCSV ''out/5/a.csv'' [],
     Imread ''imgs/b.png'', Hhts [[10, 20], [30, 40]] [2, 5] 0 32 64 7 False,
     Relabel [[0, 0], [0, 0]], Relabel [[0, 0], [0, 0]],
     WriteMatCSV ''out/2/b.csv'' [[0, 0], [0, 0]], WriteMatCSV ''out/5/b.csv'' [[0, 0], [0, 0]],
     AppendRuntime ''out/runtime.txt'' (Finite 1) (Finite 3)])"
  using repair_count_unused [of example_env "\<lambda>l. 99" example_parameters]
  by (simp only: example_main)

subsection \<open>C8: a second run writes the same label matrices\<close>

text \<open>
  C8. With \<^verbatim>\<open>HHTS::hhts\<close> and \<^verbatim>\<open>relabelConnectedSuperpixels\<close> taken as functions of their
  arguments, as the spec says they are, \<^verbatim>\<open>main\<close> adds nothing that varies between runs to
  what is written. Run the program a second time on the same files with the same
  options, with any other timings and with the directories as the first run left them:
  it ends the same way, and it writes the same matrices to the same CSV and image paths
  in the same order. Neither the timer, nor the accumulated totals, nor the directories
  that exist reach the label matrices.
\<close>

theorem second_run_same_label_maps:
  "fst (main (e\<lparr>timer := t,
                 directories := dirs_after (directories e) (snd (main e p))\<rparr>) p) =
     fst (main e p) \<and>
   filter is_output
     (snd (main (e\<lparr>timer := t,
                    directories := dirs_after (directories e) (snd (main e p))\<rparr>) p)) =
     filter is_output (snd (main e p))"
proof -
  let ?e = "e\<lparr>timer := t, directories := dirs_after (directories e) (fst (startup e p))\<rparr>"
  have s: "startup ?e p = (filter (\<lambda>ev. \<not> is_create ev) (fst (startup e p)), snd (startup e p))"
    by (rule startup_again)
  have f0: "filter is_output (fst (startup ?e p)) = []"
    by (rule filter_output_startup)
  have "fst (main ?e p) = fst (main e p) \<and>
      filter is_output (snd (main ?e p)) = filter is_output (snd (main e p))"
  proof (cases "snd (startup e p)")
    case (Inl out)
    then have "snd (startup ?e p) = Inl out" by (simp add: s)
    from main_early [OF this] main_early [OF Inl] f0 show ?thesis
      by (simp add: filter_output_startup)
  next
    case (Inr r)
    obtain d sps where "r = (d, sps)" by (cases r) auto
    with Inr have r: "snd (startup e p) = Inr (d, sps)" by simp
    then have r': "snd (startup ?e p) = Inr (d, sps)" by (simp add: s)
    let ?b = "batch e p sps (0, 0, 0) (readDirectory e d)"
    let ?b' = "batch ?e p sps (0, 0, 0) (readDirectory e d)"
    have b: "fst ?b' = fst ?b \<and>
       (case snd ?b' of
          Inl out \<Rightarrow> snd ?b = Inl out
        | Inr a' \<Rightarrow> (\<exists>a. snd ?b = Inr a))"
      by (rule batch_env; (rule process_image_env)?; simp)
    have m: "main e p =
       (case snd ?b of Inl out \<Rightarrow> out | Inr acc \<Rightarrow> Exit 0,
        fst (startup e p) @ [ReadDirectory d] @ fst ?b @
        (case snd ?b of Inl out \<Rightarrow> [] | Inr acc \<Rightarrow> finish p acc))"
      by (simp add: main_reach [OF r] split: prod.splits sum.splits)
    have rd: "readDirectory ?e d = readDirectory e d"
      by simp
    have m': "main ?e p =
       (case snd ?b' of Inl out \<Rightarrow> out | Inr acc \<Rightarrow> Exit 0,
        fst (startup ?e p) @ [ReadDirectory d] @ fst ?b' @
        (case snd ?b' of Inl out \<Rightarrow> [] | Inr acc \<Rightarrow> finish p acc))"
      unfolding main_reach [OF r'] rd by (simp split: prod.splits sum.splits)
    show ?thesis
    proof (cases "snd ?b'")
      case (Inl out)
      with b have "snd ?b = Inl out" by simp
      with Inl b show ?thesis
        unfolding m m' by (simp add: filter_output_startup f0)
    next
      case (Inr a')
      with b obtain a where "snd ?b = Inr a" by auto
      with Inr b show ?thesis
        unfolding m m' by (simp add: filter_output_startup f0 filter_output_finish)
    qed
  qed
  then show ?thesis
    by (simp only: dirs_after_main)
qed

text \<open>The small run, repeated with other timings in the directories it has left.\<close>

theorem second_run_same_label_maps_witness:
  "fst (main (example_env\<lparr>timer := \<lambda>n. (5, 8),
               directories := dirs_after (directories example_env)
                                (snd (main example_env example_parameters))\<rparr>)
          example_parameters) = Exit 0 \<and>
   filter is_output
     (snd (main (example_env\<lparr>timer := \<lambda>n. (5, 8),
                   directories := dirs_after (directories example_env)
                                    (snd (main example_env example_parameters))\<rparr>)
             example_parameters)) =
     [WriteMatCSV ''out/2/a.csv'' [], WriteMatCSV ''out/5/a.csv'' [],
      WriteMatCSV ''out/2/b.csv'' [[0, 0], [0, 0]], WriteMatCSV ''out/5/b.csv'' [[0, 0], [0, 0]]]"
proof -
  have "filter is_output (snd (main example_env example_parameters)) =
     [WriteMatCSV ''out/2/a.csv'' [], WriteMatCSV ''out/5/a.csv'' [],
      WriteMatCSV ''out/2/b.csv'' [[0, 0], [0, 0]], WriteMatCSV ''out/5/b.csv'' [[0, 0], [0, 0]]]"
    and "fst (main example_env example_parameters) = Exit 0"
    by (simp_all add: example_main)
  with second_run_same_label_maps
         [where e = example_env and t = "\<lambda>n. (5, 8)" and p = example_parameters]
  show ?thesis
    by (simp only:)
qed

subsection \<open>C9: an empty batch\<close>



subsection \<open>C10: the directories of the target counts\<close>

text \<open>
  C10. When the \<^verbatim>\<open>superpixels\<close> option is given, then before the input directory is listed
  and any image is read, \<^verbatim>\<open>output_dir / to_string(sp)\<close> is a directory for every requested
  count \<open>sp\<close>: it was one when the program started, or the directory calls of the start-up
  created it (the start-up makes no other call). This also holds when the \<^verbatim>\<open>csv\<close>
  option is empty: the path is then the bare number, a relative path, and no CSV file
  is written in the whole run.
\<close>

theorem superpixel_directories_before_batch:
  assumes "snd (startup e p) = Inr (d, sps)"
    and "superpixels p = Some v"
  shows "sps = v \<and>
     (\<exists>rest. snd (main e p) = fst (startup e p) @ ReadDirectory d # rest) \<and>
     (\<forall>ev\<in>set (fst (startup e p)). is_create ev) \<and>
     (\<forall>sp\<in>set v.
        path_append (csv p) (to_string sp) \<in> dirs_after (directories e) (fst (startup e p)) \<and>
        (path_append (csv p) (to_string sp) \<in> directories e \<or>
         (\<exists>q. CreateDirectories q \<in> set (fst (startup e p)) \<and>
              (path_append (csv p) (to_string sp) = q \<or>
               path_append (csv p) (to_string sp) \<in> set (parents q))))) \<and>
     (csv p = [] \<longrightarrow>
        (\<forall>sp\<in>set v. path_append (csv p) (to_string sp) = to_string sp \<and>
                     hd (to_string sp) \<noteq> CHR ''/'') \<and>
        (\<forall>ev\<in>set (snd (main e p)). \<forall>f m. ev \<noteq> WriteMatCSV f m))"
proof -
  note r = startup_reach [OF assms(1)]
  from r(3) assms(2) have v: "sps = v" by simp
  have ex: "\<exists>rest. snd (main e p) = fst (startup e p) @ ReadDirectory d # rest"
    using main_events [OF assms(1)] by auto
  have dirs: "\<forall>sp\<in>set v.
        path_append (csv p) (to_string sp) \<in> dirs_after (directories e) (fst (startup e p)) \<and>
        (path_append (csv p) (to_string sp) \<in> directories e \<or>
         (\<exists>q. CreateDirectories q \<in> set (fst (startup e p)) \<and>
              (path_append (csv p) (to_string sp) = q \<or>
               path_append (csv p) (to_string sp) \<in> set (parents q))))"
    using r(5) v dirs_after_origin by blast
  have rel: "csv p = [] \<longrightarrow>
        (\<forall>sp\<in>set v. path_append (csv p) (to_string sp) = to_string sp \<and>
                     hd (to_string sp) \<noteq> CHR ''/'')"
    using to_string_relative by (auto simp: path_append_def)
  have nocsv: "csv p = [] \<longrightarrow> (\<forall>ev\<in>set (snd (main e p)). \<forall>f m. ev \<noteq> WriteMatCSV f m)"
  proof (intro impI ballI allI)
    fix ev f m
    assume c: "csv p = []" and ev: "ev \<in> set (snd (main e p))"
    from main_events [OF assms(1)] have
      m: "snd (main e p) = fst (startup e p) @ ReadDirectory d #
            fst (batch e p sps (0, 0, 0) (readDirectory e d)) @
            (case snd (batch e p sps (0, 0, 0) (readDirectory e d)) of
               Inl out \<Rightarrow> [] | Inr acc \<Rightarrow> finish p acc)" .
    from ev m consider
        "ev \<in> set (fst (startup e p))"
      | "ev = ReadDirectory d"
      | "ev \<in> set (fst (batch e p sps (0, 0, 0) (readDirectory e d)))"
      | acc where "ev \<in> set (finish p acc)"
      by (auto split: sum.splits)
    then show "ev \<noteq> WriteMatCSV f m"
    proof cases
      case 1
      with r(4) have "is_create ev" by auto
      then show ?thesis by auto
    next
      case 2
      then show ?thesis by simp
    next
      case 3
      with batch_events_subset obtain it where "ev \<in> set (image_events e p sps it)"
        by blast
      with c show ?thesis by (rule image_events_no_csv)
    next
      case 4
      with c show ?thesis
        by (cases acc) (auto simp: finish_def split: if_splits)
    qed
  qed
  from v ex r(4) dirs rel nocsv show ?thesis
    by blast
qed

text \<open>\<^verbatim>\<open>hhts_cli imgs -s 2 5\<close>, with no \<^verbatim>\<open>csv\<close> option.\<close>

theorem superpixel_directories_before_batch_witness:
  "snd (startup example_env (example_parameters\<lparr>csv := []\<rparr>)) = Inr (''imgs'', [2, 5]) \<and>
   superpixels (example_parameters\<lparr>csv := []\<rparr>) = Some [2, 5] \<and>
   fst (startup example_env (example_parameters\<lparr>csv := []\<rparr>)) =
     [CreateDirectories ''2'', CreateDirectories ''5''] \<and>
   ''2'' \<in> dirs_after (directories example_env) [CreateDirectories ''2'', CreateDirectories ''5''] \<and>
   ''5'' \<in> dirs_after (directories example_env) [CreateDirectories ''2'', CreateDirectories ''5''] \<and>
   WriteMatCSV ''2/b.csv'' [[0, 0], [0, 0]]
     \<notin> set (snd (main example_env (example_parameters\<lparr>csv := []\<rparr>)))"
proof -
  let ?p = "example_parameters\<lparr>csv := []\<rparr>"
  have s: "startup example_env ?p =
     ([CreateDirectories ''2'', CreateDirectories ''5''], Inr (''imgs'', [2, 5]))"
    by (simp add: example_simps)
  have h1: "snd (startup example_env ?p) = Inr (''imgs'', [2, 5])"
    by (simp add: s)
  have h2: "superpixels ?p = Some [2, 5]"
    by (simp add: example_fields)
  have c: "csv ?p = []"
    by simp
  have t: "to_string 2 = ''2''" "to_string 5 = ''5''"
    by (simp_all add: example_simps)
  from superpixel_directories_before_batch [OF h1 h2] h1 h2 show ?thesis
    by (auto simp: s t path_append_def)
qed

end
